theory Spec2Isabelle
  imports Main
begin

section \<open>The scanner screen of cortexDecoder\<close>

text \<open>
  The repository holds two versions of one React Native screen, \<^verbatim>\<open>ScannerScreen\<close>:
  \<^item> \<^verbatim>\<open>src/App.tsx\<close>, the live-switch screen: the selected backend runs as long as the
    screen is mounted, and an effect on \<^verbatim>\<open>scannerType\<close> stops and restarts it;
  \<^item> \<^verbatim>\<open>src/unnamed/part_000\<close>, the explicit-lifecycle screen: idle, scanning, result.

  Both drive the Cortex SDK through \<^verbatim>\<open>CDLicense\<close>, \<^verbatim>\<open>CDCamera\<close> and \<^verbatim>\<open>CDDecoder\<close> with the
  same three functions (\<^verbatim>\<open>ensureLicenseActivated\<close>, \<^verbatim>\<open>startCortex\<close>, and the stop
  routine, \<^verbatim>\<open>stopAllCameras\<close> in the first file and \<^verbatim>\<open>stopAll\<close> in the second). The
  functions read and write two refs and call the SDK; they are modelled over a record of
  the refs and of the SDK's side, returned updated.
\<close>

subsection \<open>Data\<close>

datatype ScannerType = Cortex | Vision

datatype ScreenState = Idle | Scanning | Result

text \<open>\<^verbatim>\<open>CDResult.CDDecodeStatus\<close>: the code compares with \<^verbatim>\<open>success\<close> only.\<close>

datatype CDDecodeStatus = Success | OtherStatus nat

record CDResult =
  status :: CDDecodeStatus
  barcodeData :: string

text \<open>A code of the vision camera; \<^verbatim>\<open>value\<close> is optional there.\<close>

record Code =
  codeValue :: "string option"

text \<open>
  What a JavaScript function can throw here: the \<^verbatim>\<open>Error\<close> of a missing license key,
  the rejection of \<^verbatim>\<open>CDLicense.activateLicense\<close>, an exception of an SDK call.
\<close>

datatype error = MissingCredential | ActivationError | SdkError

text \<open>The calls the screen issues to the SDK and to the subscription it holds.\<close>

datatype native_call =
    SetCustomerId string
  | ActivateLicense string
  | AddListener nat
  | RemoveListener nat
  | StartCamera
  | StartPreview
  | SetVideoCapturing bool
  | SetDecoding bool
  | StopPreview
  | StopCamera

text \<open>
  The refs of the component (\<^verbatim>\<open>subscriptionRef\<close>, \<^verbatim>\<open>licenseActivatedRef\<close>) and the SDK's
  side: the listeners alive on \<^verbatim>\<open>CDDecoder\<close> (by handle), the four switches of the
  camera pipeline, and the log of every call issued, oldest first.
\<close>

record session =
  subscriptionRef :: "nat option"
  licenseActivatedRef :: bool
  listeners :: "nat list"
  nextHandle :: nat
  camera :: bool
  preview :: bool
  capturing :: bool
  decoding :: bool
  calls :: "native_call list"

text \<open>
  The environment: the two \<^verbatim>\<open>process.env\<close> entries, the platform, the device the vision
  camera found, and which SDK calls throw: \<open>sdkThrows env k\<close> says that the call issued
  when \<open>k\<close> calls are already in the log throws.
\<close>

record env =
  EXPO_PUBLIC_CORTEX_CUSTOMER_ID :: "string option"
  EXPO_PUBLIC_CORTEX_LICENSE_KEY :: "string option"
  isAndroid :: bool
  hasDevice :: bool
  initialHasPermission :: bool
  sdkThrows :: "nat \<Rightarrow> bool"

text \<open>
  An \<^verbatim>\<open>async\<close> function runs until its first pending \<^verbatim>\<open>await\<close>. The only promise of
  these screens that the SDK settles later is \<^verbatim>\<open>CDLicense.activateLicense\<close>; an
  \<^verbatim>\<open>await\<close> of a promise that is already settled continues before any other event.
  So a call of an \<^verbatim>\<open>async\<close> function has one of three outcomes: it resolved, it
  rejected, or it is waiting for the activation to settle.
\<close>

datatype outcome = Resolved | Rejected error | Awaiting

subsection \<open>The SDK\<close>

text \<open>The effect of a call that returns.\<close>

fun pipeline :: "native_call \<Rightarrow> 'a session_scheme \<Rightarrow> 'a session_scheme" where
  "pipeline StartCamera s = s\<lparr>camera := True\<rparr>"
| "pipeline StopCamera s = s\<lparr>camera := False\<rparr>"
| "pipeline StartPreview s = s\<lparr>preview := True\<rparr>"
| "pipeline StopPreview s = s\<lparr>preview := False\<rparr>"
| "pipeline (SetVideoCapturing b) s = s\<lparr>capturing := b\<rparr>"
| "pipeline (SetDecoding b) s = s\<lparr>decoding := b\<rparr>"
| "pipeline (AddListener h) s = s\<lparr>listeners := listeners s @ [h]\<rparr>"
| "pipeline (RemoveListener h) s = s\<lparr>listeners := removeAll h (listeners s)\<rparr>"
| "pipeline (SetCustomerId c) s = s"
| "pipeline (ActivateLicense k) s = s"

text \<open>
  A call that is taken to return: it is logged and takes effect. These are the calls of
  the start path (\<^verbatim>\<open>setCustomerId\<close>, \<^verbatim>\<open>activateLicense\<close>, \<^verbatim>\<open>addListener\<close> and the
  four calls that start the pipeline).
\<close>

definition sdk :: "native_call \<Rightarrow> 'a session_scheme \<Rightarrow> 'a session_scheme" where
  "sdk c s = pipeline c (s\<lparr>calls := calls s @ [c]\<rparr>)"

text \<open>
  A call that may throw, as the calls of the stop routine may: it is logged; when it
  throws it has no effect and the exception is the result.
\<close>

definition sdkTry :: "env \<Rightarrow> native_call \<Rightarrow> 'a session_scheme \<Rightarrow> (error + unit) \<times> 'a session_scheme" where
  "sdkTry e c s =
     (if sdkThrows e (length (calls s)) then (Inl SdkError, s\<lparr>calls := calls s @ [c]\<rparr>)
      else (Inr (), sdk c s))"

text \<open>Two statements in sequence: an exception of the first skips the second.\<close>

definition andThen ::
  "('s \<Rightarrow> (error + unit) \<times> 's) \<Rightarrow> ('s \<Rightarrow> (error + unit) \<times> 's) \<Rightarrow> 's \<Rightarrow> (error + unit) \<times> 's" where
  "andThen f g s = (case f s of (Inl x, s') \<Rightarrow> (Inl x, s') | (Inr u, s') \<Rightarrow> g s')"

subsection \<open>\<^verbatim>\<open>ensureLicenseActivated\<close>, \<^verbatim>\<open>startCortex\<close>, \<^verbatim>\<open>stopAllCameras\<close>\<close>

text \<open>
  \<^verbatim>\<open>ensureLicenseActivated\<close> (App.tsx 60-74, part_000 64-76; the two differ in the text
  of the \<^verbatim>\<open>Error\<close> only) up to its \<^verbatim>\<open>await\<close>. \<^verbatim>\<open>!licenseKey\<close> holds of an undefined and
  of an empty key.
\<close>

definition ensureLicenseActivated :: "env \<Rightarrow> 'a session_scheme \<Rightarrow> outcome \<times> 'a session_scheme" where
  "ensureLicenseActivated e s =
     (if licenseActivatedRef s then (Resolved, s)
      else
        let customerId = (case EXPO_PUBLIC_CORTEX_CUSTOMER_ID e of
                            None \<Rightarrow> ''ReplaceExpirationLib'' | Some c \<Rightarrow> c);
            licenseKey = EXPO_PUBLIC_CORTEX_LICENSE_KEY e
        in (case licenseKey of
              None \<Rightarrow> (Rejected MissingCredential, s)
            | Some k \<Rightarrow>
                if k = [] then (Rejected MissingCredential, s)
                else (Awaiting, sdk (ActivateLicense k) (sdk (SetCustomerId customerId) s))))"

text \<open>
  The rest of \<^verbatim>\<open>ensureLicenseActivated\<close>, run when the activation settles: the flag is
  set when it succeeded, the rejection is passed on when it failed.
\<close>

definition ensureLicenseActivated_resume :: "bool \<Rightarrow> 'a session_scheme \<Rightarrow> outcome \<times> 'a session_scheme" where
  "ensureLicenseActivated_resume ok s =
     (if ok then (Resolved, s\<lparr>licenseActivatedRef := True\<rparr>) else (Rejected ActivationError, s))"

text \<open>\<^verbatim>\<open>CDDecoder.addListener\<close> returns a new subscription.\<close>

definition addListener :: "'a session_scheme \<Rightarrow> nat \<times> 'a session_scheme" where
  "addListener s = (nextHandle s, (sdk (AddListener (nextHandle s)) s)\<lparr>nextHandle := Suc (nextHandle s)\<rparr>)"

text \<open>\<^verbatim>\<open>startCortex\<close> after \<^verbatim>\<open>await ensureLicenseActivated()\<close> (App.tsx 79-93, part_000 81-97).\<close>

definition startCortex_rest :: "'a session_scheme \<Rightarrow> 'a session_scheme" where
  "startCortex_rest s =
     (let s1 = (case subscriptionRef s of
                  None \<Rightarrow> (case addListener s of (h, s') \<Rightarrow> s'\<lparr>subscriptionRef := Some h\<rparr>)
                | Some h \<Rightarrow> s)
      in sdk (SetDecoding True) (sdk (SetVideoCapturing True) (sdk StartPreview (sdk StartCamera s1))))"

definition startCortex :: "env \<Rightarrow> 'a session_scheme \<Rightarrow> outcome \<times> 'a session_scheme" where
  "startCortex e s =
     (case ensureLicenseActivated e s of
        (Resolved, s') \<Rightarrow> (Resolved, startCortex_rest s')
      | (Rejected x, s') \<Rightarrow> (Rejected x, s')
      | (Awaiting, s') \<Rightarrow> (Awaiting, s'))"

definition startCortex_resume :: "bool \<Rightarrow> 'a session_scheme \<Rightarrow> outcome \<times> 'a session_scheme" where
  "startCortex_resume ok s =
     (case ensureLicenseActivated_resume ok s of
        (Resolved, s') \<Rightarrow> (Resolved, startCortex_rest s')
      | (r, s') \<Rightarrow> (r, s'))"

text \<open>The \<^verbatim>\<open>try\<close> block of the stop routine.\<close>

definition stopBlock :: "env \<Rightarrow> 'a session_scheme \<Rightarrow> (error + unit) \<times> 'a session_scheme" where
  "stopBlock e =
     andThen (sdkTry e (SetDecoding False))
       (andThen (sdkTry e (SetVideoCapturing False))
          (andThen (sdkTry e StopPreview) (sdkTry e StopCamera)))"

text \<open>
  \<^verbatim>\<open>subscriptionRef.current?.remove()\<close>: without a subscription nothing is called; with
  one, \<^verbatim>\<open>remove()\<close> is called, and it may throw.
\<close>

definition removeSubscription :: "env \<Rightarrow> 'a session_scheme \<Rightarrow> (error + unit) \<times> 'a session_scheme" where
  "removeSubscription e s =
     (case subscriptionRef s of
        None \<Rightarrow> (Inr (), s)
      | Some h \<Rightarrow> sdkTry e (RemoveListener h) s)"

text \<open>
  \<^verbatim>\<open>stopAllCameras\<close> (App.tsx 96-106): the \<^verbatim>\<open>catch\<close> drops the exception of the block.
  The two statements after it are outside the \<^verbatim>\<open>try\<close>: when \<^verbatim>\<open>remove()\<close> throws, the
  routine throws and the ref is not cleared. The result says whether the routine threw.
\<close>

definition stopAllCameras :: "env \<Rightarrow> 'a session_scheme \<Rightarrow> (error + unit) \<times> 'a session_scheme" where
  "stopAllCameras e s =
     (case stopBlock e s of
        (r, s1) \<Rightarrow>
          (case removeSubscription e s1 of
             (Inl x, s2) \<Rightarrow> (Inl x, s2)
           | (Inr u, s2) \<Rightarrow> (Inr (), s2\<lparr>subscriptionRef := None\<rparr>)))"

text \<open>\<^verbatim>\<open>stopAll\<close> (part_000 104-115): the same statements.\<close>

definition stopAll :: "env \<Rightarrow> 'a session_scheme \<Rightarrow> (error + unit) \<times> 'a session_scheme" where
  "stopAll e s =
     (case stopBlock e s of
        (r, s1) \<Rightarrow>
          (case removeSubscription e s1 of
             (Inl x, s2) \<Rightarrow> (Inl x, s2)
           | (Inr u, s2) \<Rightarrow> (Inr (), s2\<lparr>subscriptionRef := None\<rparr>)))"

subsection \<open>What both screens hold\<close>

text \<open>
  The React state both versions have (\<^verbatim>\<open>scannerType\<close>, \<^verbatim>\<open>androidPermission\<close>, and
  \<^verbatim>\<open>hasPermission\<close> of \<^verbatim>\<open>useCameraPermission\<close>), the exceptions and rejections that
  nobody handles, and whether the component is still mounted.
\<close>

record component = session +
  scannerType :: ScannerType
  androidPermission :: bool
  hasPermission :: bool
  unhandled :: "error list"
  alive :: bool

text \<open>What happens to a screen: presses, settled promises, and events of the two backends.\<close>

datatype event =
    SelectScanner ScannerType
  | PressStart
  | PressClose
  | PressReadAnother
  | ActivationSettled bool
  | DecodeResult "CDResult list option"
  | CodeScanned "Code list"
  | AndroidPermissionResult bool
  | CameraPermissionResult bool
  | Unmount

datatype view =
    PermissionMessage
  | CDCameraView
  | VisionCamera
  | NoCamera
  | IdleView
  | ResultView

text \<open>The guard of both renders: \<^verbatim>\<open>!androidPermission || !hasPermission\<close> blocks.\<close>

definition ready :: "'a component_scheme \<Rightarrow> bool" where
  "ready s = (androidPermission s \<and> hasPermission s)"

text \<open>A promise that nobody awaits: its rejection is unhandled, and recorded.\<close>

definition floating :: "outcome \<times> 'a component_scheme \<Rightarrow> 'a component_scheme" where
  "floating r = (case r of
      (Rejected x, s) \<Rightarrow> s\<lparr>unhandled := unhandled s @ [x]\<rparr>
    | (Resolved, s) \<Rightarrow> s
    | (Awaiting, s) \<Rightarrow> s)"

text \<open>
  A statement that may throw where nobody catches: the exception is reported and
  recorded, and the rest of the caller, \<open>k\<close>, is skipped. An \<^verbatim>\<open>async\<close> function
  rejects, with nobody awaiting it; what an effect's cleanup or an event handler throws
  is caught and reported by React, and the screen goes on.
\<close>

definition orReport ::
  "(error + unit) \<times> 'a component_scheme \<Rightarrow> ('a component_scheme \<Rightarrow> 'a component_scheme) \<Rightarrow> 'a component_scheme" where
  "orReport r k = (case r of
      (Inl x, s) \<Rightarrow> s\<lparr>unhandled := unhandled s @ [x]\<rparr>
    | (Inr u, s) \<Rightarrow> k s)"

subsection \<open>The live-switch screen (src/App.tsx)\<close>

text \<open>
  Every run of the effect on \<^verbatim>\<open>scannerType\<close> has its own \<^verbatim>\<open>mounted\<close> variable: a cell
  of \<open>mountedCells\<close>, the last one being the current effect's. \<open>pending\<close> lists the
  effects whose \<^verbatim>\<open>start\<close> waits for the activation, oldest first.
\<close>

record screen = component +
  lastResult :: string
  mountedCells :: "bool list"
  pending :: "nat list"

definition init :: "env \<Rightarrow> screen" where
  "init e = \<lparr> subscriptionRef = None, licenseActivatedRef = False, listeners = [],
     nextHandle = 0, camera = False, preview = False, capturing = False, decoding = False,
     calls = [], scannerType = Cortex, androidPermission = (\<not> isAndroid e),
     hasPermission = initialHasPermission e, unhandled = [], alive = True,
     lastResult = [], mountedCells = [], pending = [] \<rparr>"

text \<open>A state update of an unmounted component is dropped by React.\<close>

definition setLastResult :: "string \<Rightarrow> screen \<Rightarrow> screen" where
  "setLastResult v s = (if alive s then s\<lparr>lastResult := v\<rparr> else s)"

text \<open>\<^verbatim>\<open>onCodeScanned\<close> of \<^verbatim>\<open>useCodeScanner\<close> (App.tsx 49-53).\<close>

definition onCodeScanned :: "Code list \<Rightarrow> screen \<Rightarrow> screen" where
  "onCodeScanned codes s =
     (case codes of
        [] \<Rightarrow> s
      | c # cs \<Rightarrow> setLastResult (case codeValue c of None \<Rightarrow> [] | Some v \<Rightarrow> v) s)"

text \<open>The listener of \<^verbatim>\<open>onDecodeResult\<close> (App.tsx 82-86).\<close>

definition onDecodeResult :: "CDResult list option \<Rightarrow> screen \<Rightarrow> screen" where
  "onDecodeResult results s =
     (case results of
        None \<Rightarrow> s
      | Some [] \<Rightarrow> s
      | Some (r # rs) \<Rightarrow> if status r = Success then setLastResult (barcodeData r) s else s)"

text \<open>The render (App.tsx 155-178).\<close>

definition render :: "env \<Rightarrow> screen \<Rightarrow> view" where
  "render e s =
     (if \<not> androidPermission s \<or> \<not> hasPermission s then PermissionMessage
      else if scannerType s = Cortex then CDCameraView
      else if hasDevice e then VisionCamera else NoCamera)"

text \<open>
  The body of the effect on \<^verbatim>\<open>scannerType\<close> (App.tsx 132-143): \<^verbatim>\<open>mounted\<close> is created,
  and \<^verbatim>\<open>start()\<close> runs to its \<^verbatim>\<open>await\<close>; nobody awaits \<^verbatim>\<open>start()\<close>.
\<close>

definition scannerEffect :: "env \<Rightarrow> screen \<Rightarrow> screen" where
  "scannerEffect e s =
     (let eid = length (mountedCells s);
          s0 = s\<lparr>mountedCells := mountedCells s @ [True]\<rparr>
      in orReport (stopAllCameras e s0)
           (\<lambda>s1. if \<not> (mountedCells s1 ! eid) then s1
                 else if scannerType s1 = Cortex then
                   (case startCortex e s1 of
                      (Awaiting, s2) \<Rightarrow> s2\<lparr>pending := pending s2 @ [eid]\<rparr>
                    | r \<Rightarrow> floating r)
                 else s1))"

text \<open>The cleanup of the effect (App.tsx 145-148), run for the current effect.\<close>

definition effectCleanup :: "env \<Rightarrow> screen \<Rightarrow> screen" where
  "effectCleanup e s =
     orReport (stopAllCameras e
         (s\<lparr>mountedCells := (mountedCells s)[length (mountedCells s) - 1 := False]\<rparr>))
       (\<lambda>s1. s1)"

text \<open>The first render's effect.\<close>

definition mount :: "env \<Rightarrow> screen" where
  "mount e = scannerEffect e (init e)"

text \<open>
  One event. The two buttons exist when the render is not the permission message; a
  press clears the result and sets \<^verbatim>\<open>scannerType\<close>, and when that changed it, the old
  effect is cleaned up and the effect runs again. When the activation settles, the
  oldest waiting \<^verbatim>\<open>start\<close> continues: \<^verbatim>\<open>ensureLicenseActivated\<close>, then the rest of
  \<^verbatim>\<open>startCortex\<close>, and nothing of \<^verbatim>\<open>start\<close> after it. A decode batch reaches the
  listener when one is alive, scanned codes reach \<^verbatim>\<open>onCodeScanned\<close> when the vision
  camera is rendered.
\<close>

fun step :: "env \<Rightarrow> event \<Rightarrow> screen \<Rightarrow> screen" where
  "step e (SelectScanner t) s =
     (if \<not> alive s \<or> render e s = PermissionMessage then s
      else
        let s1 = setLastResult [] s
        in if t = scannerType s1 then s1
           else scannerEffect e (effectCleanup e (s1\<lparr>scannerType := t\<rparr>)))"
| "step e (ActivationSettled ok) s =
     (case pending s of
        [] \<Rightarrow> s
      | eid # rest \<Rightarrow> floating (startCortex_resume ok (s\<lparr>pending := rest\<rparr>)))"
| "step e (DecodeResult results) s =
     (if listeners s = [] then s else onDecodeResult results s)"
| "step e (CodeScanned codes) s =
     (if alive s \<and> render e s = VisionCamera then onCodeScanned codes s else s)"
| "step e (AndroidPermissionResult g) s =
     (if alive s \<and> isAndroid e then s\<lparr>androidPermission := g\<rparr> else s)"
| "step e (CameraPermissionResult g) s =
     (if alive s then s\<lparr>hasPermission := g\<rparr> else s)"
| "step e Unmount s =
     (if alive s then (effectCleanup e s)\<lparr>alive := False\<rparr> else s)"
| "step e PressStart s = s"
| "step e PressClose s = s"
| "step e PressReadAnother s = s"

definition run :: "env \<Rightarrow> event list \<Rightarrow> screen \<Rightarrow> screen" where
  "run e es s = foldl (\<lambda>s x. step e x s) s es"

text \<open>
  The cortex pipeline runs; the vision camera is rendered, with \<^verbatim>\<open>isActive\<close>; the
  screen shows the permission message and nothing else.
\<close>

definition cortexActive :: "'a session_scheme \<Rightarrow> bool" where
  "cortexActive s = (camera s \<and> decoding s)"

definition visionActive :: "env \<Rightarrow> screen \<Rightarrow> bool" where
  "visionActive e s = (alive s \<and> render e s = VisionCamera)"

definition blockingMessageShown :: "env \<Rightarrow> screen \<Rightarrow> bool" where
  "blockingMessageShown e s = (render e s = PermissionMessage)"

subsection \<open>The explicit-lifecycle screen (src/unnamed/part_000)\<close>

record screen_v1 = component +
  state :: ScreenState
  result :: string
  pendingStarts :: nat

definition init_v1 :: "env \<Rightarrow> screen_v1" where
  "init_v1 e = \<lparr> subscriptionRef = None, licenseActivatedRef = False, listeners = [],
     nextHandle = 0, camera = False, preview = False, capturing = False, decoding = False,
     calls = [], scannerType = Cortex, androidPermission = (\<not> isAndroid e),
     hasPermission = initialHasPermission e, unhandled = [], alive = True,
     state = Idle, result = [], pendingStarts = 0 \<rparr>"

definition setResult :: "string \<Rightarrow> screen_v1 \<Rightarrow> screen_v1" where
  "setResult v s = (if alive s then s\<lparr>result := v\<rparr> else s)"

definition setState :: "ScreenState \<Rightarrow> screen_v1 \<Rightarrow> screen_v1" where
  "setState v s = (if alive s then s\<lparr>state := v\<rparr> else s)"

text \<open>\<^verbatim>\<open>onCodeScanned\<close> (part_000 49-54): \<^verbatim>\<open>codes[0]?.value\<close> must be a non-empty string.\<close>

definition onCodeScanned_v1 :: "Code list \<Rightarrow> screen_v1 \<Rightarrow> screen_v1" where
  "onCodeScanned_v1 codes s =
     (case codes of
        [] \<Rightarrow> s
      | c # cs \<Rightarrow>
          (case codeValue c of
             None \<Rightarrow> s
           | Some v \<Rightarrow> if v = [] then s else setState Result (setResult v s)))"

text \<open>The listener of \<^verbatim>\<open>onDecodeResult\<close> (part_000 84-90).\<close>

definition onDecodeResult_v1 :: "env \<Rightarrow> CDResult list option \<Rightarrow> screen_v1 \<Rightarrow> screen_v1" where
  "onDecodeResult_v1 e results s =
     (case results of
        None \<Rightarrow> s
      | Some [] \<Rightarrow> s
      | Some (r # rs) \<Rightarrow>
          if status r = Success
          then orReport (stopAll e (setResult (barcodeData r) s)) (setState Result)
          else s)"

text \<open>The render (part_000 138-240).\<close>

definition render_v1 :: "env \<Rightarrow> screen_v1 \<Rightarrow> view" where
  "render_v1 e s =
     (if \<not> androidPermission s \<or> \<not> hasPermission s then PermissionMessage
      else (case state s of
              Idle \<Rightarrow> IdleView
            | Scanning \<Rightarrow>
                if scannerType s = Cortex then CDCameraView
                else if hasDevice e then VisionCamera else NoCamera
            | Result \<Rightarrow> ResultView))"

text \<open>The \<^verbatim>\<open>onPress\<close> of the start button (part_000 178-185).\<close>

definition pressStart :: "env \<Rightarrow> screen_v1 \<Rightarrow> screen_v1" where
  "pressStart e s =
     (let s1 = setState Scanning (setResult [] s)
      in if scannerType s1 = Cortex then
           (case startCortex e s1 of
              (Awaiting, s2) \<Rightarrow> s2\<lparr>pendingStarts := Suc (pendingStarts s2)\<rparr>
            | r \<Rightarrow> floating r)
         else s1)"

text \<open>
  One event. A button can be pressed in the view that renders it: the selector and the
  start button in the idle view, the close button while scanning, "Ler outro QR" in the
  result view. The cleanup of the mount effect is \<^verbatim>\<open>stopAll\<close>.
\<close>

fun step_v1 :: "env \<Rightarrow> event \<Rightarrow> screen_v1 \<Rightarrow> screen_v1" where
  "step_v1 e (SelectScanner t) s =
     (if alive s \<and> render_v1 e s = IdleView then s\<lparr>scannerType := t\<rparr> else s)"
| "step_v1 e PressStart s =
     (if alive s \<and> render_v1 e s = IdleView then pressStart e s else s)"
| "step_v1 e PressClose s =
     (if alive s \<and> ready s \<and> state s = Scanning
      then orReport (stopAll e s) (setState Idle) else s)"
| "step_v1 e PressReadAnother s =
     (if alive s \<and> render_v1 e s = ResultView then setState Idle s else s)"
| "step_v1 e (ActivationSettled ok) s =
     (if pendingStarts s = 0 then s
      else floating (startCortex_resume ok (s\<lparr>pendingStarts := pendingStarts s - 1\<rparr>)))"
| "step_v1 e (DecodeResult results) s =
     (if listeners s = [] then s else onDecodeResult_v1 e results s)"
| "step_v1 e (CodeScanned codes) s =
     (if alive s \<and> render_v1 e s = VisionCamera then onCodeScanned_v1 codes s else s)"
| "step_v1 e (AndroidPermissionResult g) s =
     (if alive s \<and> isAndroid e then s\<lparr>androidPermission := g\<rparr> else s)"
| "step_v1 e (CameraPermissionResult g) s =
     (if alive s then s\<lparr>hasPermission := g\<rparr> else s)"
| "step_v1 e Unmount s =
     (if alive s then (orReport (stopAll e s) (\<lambda>s1. s1))\<lparr>alive := False\<rparr> else s)"

definition run_v1 :: "env \<Rightarrow> event list \<Rightarrow> screen_v1 \<Rightarrow> screen_v1" where
  "run_v1 e es s = foldl (\<lambda>s x. step_v1 e x s) s es"

subsection \<open>Sequential calls and the log\<close>

text \<open>
  A caller that awaits \<^verbatim>\<open>ensureLicenseActivated()\<close>: the call, and when it waits for the
  activation, its continuation once the activation settled with \<open>ok\<close>.
\<close>

definition ensureLicenseActivated_awaited :: "env \<Rightarrow> bool \<Rightarrow> 'a session_scheme \<Rightarrow> outcome \<times> 'a session_scheme" where
  "ensureLicenseActivated_awaited e ok s =
     (case ensureLicenseActivated e s of
        (Awaiting, s') \<Rightarrow> ensureLicenseActivated_resume ok s'
      | r \<Rightarrow> r)"

text \<open>\<open>n\<close> awaited calls one after the other, every activation succeeding.\<close>

fun ensureActivatedTimes :: "env \<Rightarrow> nat \<Rightarrow> 'a session_scheme \<Rightarrow> outcome list \<times> 'a session_scheme" where
  "ensureActivatedTimes e 0 s = ([], s)"
| "ensureActivatedTimes e (Suc n) s =
     (case ensureLicenseActivated_awaited e True s of
        (r, s') \<Rightarrow> (case ensureActivatedTimes e n s' of (rs, s'') \<Rightarrow> (r # rs, s'')))"

text \<open>How often \<^verbatim>\<open>CDLicense.activateLicense\<close> was called.\<close>

definition activations :: "native_call list \<Rightarrow> nat" where
  "activations cs = length (filter (\<lambda>c. case c of ActivateLicense k \<Rightarrow> True | _ \<Rightarrow> False) cs)"

text \<open>The customer id \<^verbatim>\<open>ensureLicenseActivated\<close> passes on.\<close>

definition customerIdOf :: "env \<Rightarrow> string" where
  "customerIdOf e =
     (case EXPO_PUBLIC_CORTEX_CUSTOMER_ID e of None \<Rightarrow> ''ReplaceExpirationLib'' | Some c \<Rightarrow> c)"

text \<open>The license key is undefined or empty: \<^verbatim>\<open>!licenseKey\<close>.\<close>

definition licenseKeyMissing :: "env \<Rightarrow> bool" where
  "licenseKeyMissing e =
     (case EXPO_PUBLIC_CORTEX_LICENSE_KEY e of None \<Rightarrow> True | Some k \<Rightarrow> k = [])"

text \<open>The four calls of the stop routine's \<^verbatim>\<open>try\<close> block.\<close>

definition stopCalls :: "native_call set" where
  "stopCalls = {SetDecoding False, SetVideoCapturing False, StopPreview, StopCamera}"

text \<open>
  \<^verbatim>\<open>remove()\<close>, as the stop routine calls it in \<open>s\<close>, returns: there is no subscription,
  or the call, issued after the calls of the \<^verbatim>\<open>try\<close> block, does not throw.
\<close>

definition removeReturns :: "env \<Rightarrow> 'a session_scheme \<Rightarrow> bool" where
  "removeReturns e s =
     (case subscriptionRef s of
        None \<Rightarrow> True
      | Some h \<Rightarrow> \<not> sdkThrows e (length (calls (snd (stopBlock e s)))))"

subsection \<open>Invariants\<close>

text \<open>
  The listeners alive on \<^verbatim>\<open>CDDecoder\<close> are the one held in \<^verbatim>\<open>subscriptionRef\<close>, if
  any.
\<close>

definition tracked :: "'a session_scheme \<Rightarrow> bool" where
  "tracked s = (listeners s = (case subscriptionRef s of None \<Rightarrow> [] | Some h \<Rightarrow> [h]))"

text \<open>
  Nothing of cortex was ever started: the flag is unset, no listener, only calls of the
  stop routine in the log, and no rejection but that of a missing key.
\<close>

definition unstarted :: "'a component_scheme \<Rightarrow> bool" where
  "unstarted s = (\<not> licenseActivatedRef s \<and> subscriptionRef s = None \<and> listeners s = []
     \<and> set (calls s) \<subseteq> stopCalls \<and> set (unhandled s) \<subseteq> {MissingCredential})"

text \<open>
  The live-switch screen at rest: the license is activated, no start waits, the
  listeners are the held subscription, and whatever of cortex is on (a switch of the
  pipeline, a listener) is on while cortex is selected and the screen mounted.
\<close>

definition settled :: "screen \<Rightarrow> bool" where
  "settled s = (licenseActivatedRef s \<and> pending s = [] \<and> tracked s
     \<and> (camera s \<or> preview s \<or> capturing s \<or> decoding s \<or> listeners s \<noteq> []
          \<longrightarrow> scannerType s = Cortex \<and> alive s))"

text \<open>
  The permission is denied before every event of the list and after the last one
  (explicit-lifecycle screen).
\<close>

fun deniedThroughout :: "env \<Rightarrow> event list \<Rightarrow> screen_v1 \<Rightarrow> bool" where
  "deniedThroughout e [] s = (\<not> ready s)"
| "deniedThroughout e (x # xs) s = (\<not> ready s \<and> deniedThroughout e xs (step_v1 e x s))"

subsection \<open>Environments and screens to run in\<close>

text \<open>
  An iOS device with a back camera, the camera permission granted, a license key
  configured, and an SDK that never throws; the same without a license key; and the
  same with the camera permission refused.
\<close>

definition exampleEnv :: env where
  "exampleEnv = \<lparr> EXPO_PUBLIC_CORTEX_CUSTOMER_ID = None,
     EXPO_PUBLIC_CORTEX_LICENSE_KEY = Some ''KEY'', isAndroid = False, hasDevice = True,
     initialHasPermission = True, sdkThrows = (\<lambda>k. False) \<rparr>"

definition noKeyEnv :: env where
  "noKeyEnv = exampleEnv\<lparr>EXPO_PUBLIC_CORTEX_LICENSE_KEY := None\<rparr>"

definition deniedEnv :: env where
  "deniedEnv = exampleEnv\<lparr>initialHasPermission := False\<rparr>"





text \<open>
  Screens in the example environment. Live-switch: cortex running after the activation,
  and the vision camera selected. Explicit-lifecycle: scanning with cortex, and with the
  vision camera. And two decode results, one successful and one not.
\<close>

definition cortexLive :: screen where
  "cortexLive = run exampleEnv [ActivationSettled True] (mount exampleEnv)"


definition cortexScanning_v1 :: screen_v1 where
  "cortexScanning_v1 = run_v1 exampleEnv [PressStart, ActivationSettled True] (init_v1 exampleEnv)"


definition abc123 :: CDResult where
  "abc123 = \<lparr>status = Success, barcodeData = ''ABC123''\<rparr>"




section \<open>Properties\<close>

subsection \<open>Fields of the screens that the shared functions leave alone\<close>

lemma component_of_more:
  fixes r r' :: "'a component_scheme"
  assumes "session.more r = session.more r'"
  shows "scannerType r = scannerType r'" "androidPermission r = androidPermission r'"
    "hasPermission r = hasPermission r'" "unhandled r = unhandled r'" "alive r = alive r'"
    "component.more r = component.more r'"
  using assms by (cases r, cases r', simp)+

lemma screen_of_more:
  fixes r r' :: "'a screen_scheme"
  assumes "session.more r = session.more r'"
  shows "lastResult r = lastResult r'" "mountedCells r = mountedCells r'" "pending r = pending r'"
  using assms by (cases r, cases r', simp)+

lemma screen_v1_of_more:
  fixes r r' :: "'a screen_v1_scheme"
  assumes "session.more r = session.more r'"
  shows "state r = state r'" "result r = result r'" "pendingStarts r = pendingStarts r'"
  using assms by (cases r, cases r', simp)+

subsection \<open>The license gate\<close>

lemma ensureLicenseActivated_flagged:
  "licenseActivatedRef s \<Longrightarrow> ensureLicenseActivated e s = (Resolved, s)"
  by (simp add: ensureLicenseActivated_def)

lemma ensureLicenseActivated_fresh:
  "\<not> licenseActivatedRef s \<Longrightarrow> EXPO_PUBLIC_CORTEX_LICENSE_KEY e = Some k \<Longrightarrow> k \<noteq> [] \<Longrightarrow>
     ensureLicenseActivated e s =
       (Awaiting, s\<lparr>calls := calls s @ [SetCustomerId (customerIdOf e), ActivateLicense k]\<rparr>)"
  by (simp add: ensureLicenseActivated_def sdk_def customerIdOf_def)

lemma ensureActivatedTimes_flagged:
  "licenseActivatedRef s \<Longrightarrow> ensureActivatedTimes e n s = (replicate n Resolved, s)"
  by (induction n) (simp_all add: ensureLicenseActivated_awaited_def ensureLicenseActivated_flagged)

lemma ensureLicenseActivated_awaited_fresh:
  "\<not> licenseActivatedRef s \<Longrightarrow> EXPO_PUBLIC_CORTEX_LICENSE_KEY e = Some k \<Longrightarrow> k \<noteq> [] \<Longrightarrow>
     ensureLicenseActivated_awaited e True s =
       (Resolved, s\<lparr>calls := calls s @ [SetCustomerId (customerIdOf e), ActivateLicense k],
                    licenseActivatedRef := True\<rparr>)"
  by (simp add: ensureLicenseActivated_awaited_def ensureLicenseActivated_fresh
      ensureLicenseActivated_resume_def)

text \<open>
  C3, as the code has it. With a license key configured and the activation succeeding,
  \<open>n \<ge> 1\<close> calls of \<^verbatim>\<open>ensureLicenseActivated\<close>, each begun once the one before has
  settled, call \<^verbatim>\<open>CDLicense.activateLicense\<close> exactly once (the first call does, after
  \<^verbatim>\<open>setCustomerId\<close>), every call resolves, and the flag ends up set; and whenever the
  flag is set, a call resolves at once and leaves everything as it is.
\<close>

theorem ensureLicenseActivated_sequential_once:
  assumes "EXPO_PUBLIC_CORTEX_LICENSE_KEY e = Some k" and "k \<noteq> []"
    and "\<not> licenseActivatedRef s" and "0 < n"
  shows "fst (ensureActivatedTimes e n s) = replicate n Resolved
       \<and> calls (snd (ensureActivatedTimes e n s)) =
           calls s @ [SetCustomerId (customerIdOf e), ActivateLicense k]
       \<and> activations (calls (snd (ensureActivatedTimes e n s))) = activations (calls s) + 1
       \<and> licenseActivatedRef (snd (ensureActivatedTimes e n s))
       \<and> (\<forall>s'. licenseActivatedRef s' \<longrightarrow> ensureLicenseActivated e s' = (Resolved, s'))"
proof -
  from \<open>0 < n\<close> obtain m where n: "n = Suc m" by (cases n) auto
  let ?s1 = "s\<lparr>calls := calls s @ [SetCustomerId (customerIdOf e), ActivateLicense k],
                licenseActivatedRef := True\<rparr>"
  have first: "ensureLicenseActivated_awaited e True s = (Resolved, ?s1)"
    by (rule ensureLicenseActivated_awaited_fresh[OF assms(3) assms(1) assms(2)])
  have rest: "ensureActivatedTimes e m ?s1 = (replicate m Resolved, ?s1)"
    by (rule ensureActivatedTimes_flagged) simp
  have all: "ensureActivatedTimes e n s = (replicate n Resolved, ?s1)"
    by (simp add: n first rest)
  show ?thesis
    by (simp add: all activations_def ensureLicenseActivated_flagged)
qed

theorem ensureLicenseActivated_sequential_once_witness:
  "fst (ensureActivatedTimes exampleEnv 3 (init exampleEnv)) = replicate 3 Resolved
   \<and> activations (calls (snd (ensureActivatedTimes exampleEnv 3 (init exampleEnv)))) =
       activations (calls (init exampleEnv)) + 1
   \<and> licenseActivatedRef (snd (ensureActivatedTimes exampleEnv 3 (init exampleEnv)))"
proof -
  have key: "EXPO_PUBLIC_CORTEX_LICENSE_KEY exampleEnv = Some ''KEY''"
    by (simp add: exampleEnv_def)
  have nonempty: "''KEY'' \<noteq> []" by simp
  have fresh: "\<not> licenseActivatedRef (init exampleEnv)"
    by (simp add: init_def)
  have pos: "0 < (3::nat)" by simp
  from ensureLicenseActivated_sequential_once[OF key nonempty fresh pos]
  show ?thesis by blast
qed

text \<open>
  C3 as stated fails when a call begins while another one's activation is pending: the
  flag is set only after the \<^verbatim>\<open>await\<close>. On the live-switch screen, with valid
  credentials: the screen mounts on cortex, the user presses VISION and then CORTEX
  before the first activation settles, and both activations succeed.
  \<^verbatim>\<open>activateLicense\<close> has been called twice, and no call failed.
\<close>

theorem overlapping_starts_activate_twice:
  "activations (calls (run exampleEnv
      [SelectScanner Vision, SelectScanner Cortex, ActivationSettled True, ActivationSettled True]
      (mount exampleEnv))) = 2
   \<and> unhandled (run exampleEnv
      [SelectScanner Vision, SelectScanner Cortex, ActivationSettled True, ActivationSettled True]
      (mount exampleEnv)) = []"
  by code_simp

lemma startCortex_fresh:
  "\<not> licenseActivatedRef s \<Longrightarrow> EXPO_PUBLIC_CORTEX_LICENSE_KEY e = Some k \<Longrightarrow> k \<noteq> [] \<Longrightarrow>
     startCortex e s =
       (Awaiting, s\<lparr>calls := calls s @ [SetCustomerId (customerIdOf e), ActivateLicense k]\<rparr>)"
  by (simp add: startCortex_def ensureLicenseActivated_fresh)

lemma startCortex_missing:
  "\<not> licenseActivatedRef s \<Longrightarrow> licenseKeyMissing e \<Longrightarrow>
     startCortex e s = (Rejected MissingCredential, s)"
  by (simp add: startCortex_def ensureLicenseActivated_def licenseKeyMissing_def split: option.splits)

lemma startCortex_resume_failed: "startCortex_resume False s = (Rejected ActivationError, s)"
  by (simp add: startCortex_resume_def ensureLicenseActivated_resume_def)

text \<open>
  C9. A start of cortex on a screen whose flag is unset, with a license key configured,
  calls \<^verbatim>\<open>activateLicense\<close> and waits. When the activation fails, the rejection is the
  outcome of \<^verbatim>\<open>ensureLicenseActivated\<close> and of \<^verbatim>\<open>startCortex\<close>, which does nothing more:
  no listener, no camera call, the state as it was. The flag is still unset, so the next
  call of \<^verbatim>\<open>ensureLicenseActivated\<close> sets the customer id and calls \<^verbatim>\<open>activateLicense\<close>
  again.
\<close>

theorem activation_failure_propagates_and_is_retried:
  assumes "EXPO_PUBLIC_CORTEX_LICENSE_KEY e = Some k" and "k \<noteq> []"
    and "\<not> licenseActivatedRef s"
  shows "(let s1 = s\<lparr>calls := calls s @ [SetCustomerId (customerIdOf e), ActivateLicense k]\<rparr>
          in startCortex e s = (Awaiting, s1)
           \<and> ensureLicenseActivated_resume False s1 = (Rejected ActivationError, s1)
           \<and> startCortex_resume False s1 = (Rejected ActivationError, s1)
           \<and> \<not> licenseActivatedRef s1
           \<and> ensureLicenseActivated e s1 =
               (Awaiting, s1\<lparr>calls := calls s1 @ [SetCustomerId (customerIdOf e), ActivateLicense k]\<rparr>))"
proof -
  let ?s1 = "s\<lparr>calls := calls s @ [SetCustomerId (customerIdOf e), ActivateLicense k]\<rparr>"
  have fresh1: "\<not> licenseActivatedRef ?s1" using assms(3) by simp
  have a: "startCortex e s = (Awaiting, ?s1)"
    by (rule startCortex_fresh[OF assms(3) assms(1) assms(2)])
  have b: "ensureLicenseActivated_resume False ?s1 = (Rejected ActivationError, ?s1)"
    by (simp add: ensureLicenseActivated_resume_def)
  have c: "startCortex_resume False ?s1 = (Rejected ActivationError, ?s1)"
    by (rule startCortex_resume_failed)
  have d: "ensureLicenseActivated e ?s1 =
      (Awaiting, ?s1\<lparr>calls := calls ?s1 @ [SetCustomerId (customerIdOf e), ActivateLicense k]\<rparr>)"
    by (rule ensureLicenseActivated_fresh[OF fresh1 assms(1) assms(2)])
  show ?thesis
    unfolding Let_def using a b c d fresh1 by blast
qed

theorem activation_failure_propagates_and_is_retried_witness:
  "startCortex exampleEnv (init exampleEnv) =
     (Awaiting, (init exampleEnv)\<lparr>calls := [SetCustomerId ''ReplaceExpirationLib'', ActivateLicense ''KEY'']\<rparr>)
   \<and> startCortex_resume False
       ((init exampleEnv)\<lparr>calls := [SetCustomerId ''ReplaceExpirationLib'', ActivateLicense ''KEY'']\<rparr>) =
     (Rejected ActivationError,
       (init exampleEnv)\<lparr>calls := [SetCustomerId ''ReplaceExpirationLib'', ActivateLicense ''KEY'']\<rparr>)"
proof -
  have key: "EXPO_PUBLIC_CORTEX_LICENSE_KEY exampleEnv = Some ''KEY''"
    by (simp add: exampleEnv_def)
  have nonempty: "''KEY'' \<noteq> []" by simp
  have fresh: "\<not> licenseActivatedRef (init exampleEnv)"
    by (simp add: init_def)
  have cid: "customerIdOf exampleEnv = ''ReplaceExpirationLib''"
    by (simp add: customerIdOf_def exampleEnv_def)
  have log: "calls (init exampleEnv) = []"
    by (simp add: init_def)
  from activation_failure_propagates_and_is_retried[OF key nonempty fresh]
  show ?thesis by (simp add: Let_def cid log)
qed

subsection \<open>The stop routine\<close>

lemma stopAll_eq: "stopAll e s = stopAllCameras e s"
  by (simp add: stopAll_def stopAllCameras_def)

lemma stopBlock_keeps:
  "subscriptionRef (snd (stopBlock e s)) = subscriptionRef s"
  "listeners (snd (stopBlock e s)) = listeners s"
  "licenseActivatedRef (snd (stopBlock e s)) = licenseActivatedRef s"
  "nextHandle (snd (stopBlock e s)) = nextHandle s"
  "session.more (snd (stopBlock e s)) = session.more s"
  by (simp_all add: stopBlock_def andThen_def sdkTry_def sdk_def split: prod.splits sum.splits)

lemma stopBlock_off:
  "fst (stopBlock e s) = Inr () \<Longrightarrow>
     \<not> camera (snd (stopBlock e s)) \<and> \<not> preview (snd (stopBlock e s)) \<and>
     \<not> capturing (snd (stopBlock e s)) \<and> \<not> decoding (snd (stopBlock e s))"
  by (auto simp add: stopBlock_def andThen_def sdkTry_def sdk_def split: if_splits)


lemma stopBlock_calls:
  "set (calls (snd (stopBlock e s))) \<subseteq> set (calls s) \<union> stopCalls"
  by (auto simp add: stopBlock_def andThen_def sdkTry_def sdk_def stopCalls_def split: if_splits)

lemma removeSubscription_none:
  "subscriptionRef s = None \<Longrightarrow> removeSubscription e s = (Inr (), s)"
  by (simp add: removeSubscription_def)

lemma removeSubscription_some:
  "subscriptionRef s = Some h \<Longrightarrow>
     removeSubscription e s =
       (if sdkThrows e (length (calls s)) then (Inl SdkError, s\<lparr>calls := calls s @ [RemoveListener h]\<rparr>)
        else (Inr (), s\<lparr>calls := calls s @ [RemoveListener h], listeners := removeAll h (listeners s)\<rparr>))"
  by (simp add: removeSubscription_def sdkTry_def sdk_def)

lemma stopAllCameras_fst: "(fst (stopAllCameras e s) = Inr ()) = removeReturns e s"
proof -
  obtain r s1 where b: "stopBlock e s = (r, s1)" by (cases "stopBlock e s")
  have k: "subscriptionRef s1 = subscriptionRef s"
    using stopBlock_keeps(1)[of e s] b by simp
  show ?thesis
  proof (cases "subscriptionRef s")
    case None
    then show ?thesis
      using k by (simp add: stopAllCameras_def removeReturns_def b removeSubscription_none)
  next
    case (Some h)
    then have "subscriptionRef s1 = Some h" using k by simp
    then show ?thesis
      using Some by (simp add: stopAllCameras_def removeReturns_def b removeSubscription_some)
  qed
qed

lemma stopAllCameras_unsubscribed:
  "subscriptionRef s = None \<Longrightarrow> fst (stopAllCameras e s) = Inr ()"
  by (simp add: stopAllCameras_fst removeReturns_def)

lemma stopAllCameras_returned:
  assumes "fst (stopAllCameras e s) = Inr ()"
  shows "subscriptionRef (snd (stopAllCameras e s)) = None"
    and "listeners (snd (stopAllCameras e s)) =
      (case subscriptionRef s of None \<Rightarrow> listeners s | Some h \<Rightarrow> removeAll h (listeners s))"
proof -
  obtain r s1 where b: "stopBlock e s = (r, s1)" by (cases "stopBlock e s")
  have k: "subscriptionRef s1 = subscriptionRef s" "listeners s1 = listeners s"
    using stopBlock_keeps(1,2)[of e s] b by simp_all
  show "subscriptionRef (snd (stopAllCameras e s)) = None"
    using assms by (auto simp add: stopAllCameras_def b split: prod.splits sum.splits)
  show "listeners (snd (stopAllCameras e s)) =
      (case subscriptionRef s of None \<Rightarrow> listeners s | Some h \<Rightarrow> removeAll h (listeners s))"
  proof (cases "subscriptionRef s")
    case None
    then show ?thesis using k by (simp add: stopAllCameras_def b removeSubscription_none)
  next
    case (Some h)
    then have "subscriptionRef s1 = Some h" using k by simp
    then show ?thesis
      using assms Some k
      by (simp add: stopAllCameras_def b removeSubscription_some split: if_splits)
  qed
qed

lemma stopAllCameras_raised:
  assumes "fst (stopAllCameras e s) \<noteq> Inr ()"
  shows "subscriptionRef (snd (stopAllCameras e s)) = subscriptionRef s"
    and "listeners (snd (stopAllCameras e s)) = listeners s"
    and "fst (stopAllCameras e s) = Inl SdkError"
proof -
  obtain r s1 where b: "stopBlock e s = (r, s1)" by (cases "stopBlock e s")
  have k: "subscriptionRef s1 = subscriptionRef s" "listeners s1 = listeners s"
    using stopBlock_keeps(1,2)[of e s] b by simp_all
  obtain h where h: "subscriptionRef s = Some h"
    using assms stopAllCameras_unsubscribed[of s e] by (cases "subscriptionRef s") auto
  then have h1: "subscriptionRef s1 = Some h" using k by simp
  show "subscriptionRef (snd (stopAllCameras e s)) = subscriptionRef s"
    "listeners (snd (stopAllCameras e s)) = listeners s"
    "fst (stopAllCameras e s) = Inl SdkError"
    using assms h k
    by (simp_all add: stopAllCameras_def b removeSubscription_some[OF h1] split: if_splits)
qed

lemma stopAllCameras_keeps:
  "licenseActivatedRef (snd (stopAllCameras e s)) = licenseActivatedRef s"
  "nextHandle (snd (stopAllCameras e s)) = nextHandle s"
  "session.more (snd (stopAllCameras e s)) = session.more s"
  using stopBlock_keeps(3,4,5)[of e s]
  by (auto simp add: stopAllCameras_def removeSubscription_def sdkTry_def sdk_def
      split: prod.splits option.splits)

lemmas stopAllCameras_component = component_of_more[OF stopAllCameras_keeps(3)]
lemmas stopAllCameras_screen = screen_of_more[OF stopAllCameras_keeps(3)]
lemmas stopAllCameras_screen_v1 = screen_v1_of_more[OF stopAllCameras_keeps(3)]

lemma stopAllCameras_calls:
  "subscriptionRef s = None \<Longrightarrow>
     set (calls (snd (stopAllCameras e s))) \<subseteq> set (calls s) \<union> stopCalls"
  using stopBlock_calls[of e s] stopBlock_keeps(1)[of e s]
  by (auto simp add: stopAllCameras_def removeSubscription_def split: prod.splits option.splits)

lemma stopAllCameras_off:
  "fst (stopBlock e s) = Inr () \<Longrightarrow>
     \<not> camera (snd (stopAllCameras e s)) \<and> \<not> preview (snd (stopAllCameras e s)) \<and>
     \<not> capturing (snd (stopAllCameras e s)) \<and> \<not> decoding (snd (stopAllCameras e s))"
  using stopBlock_off[of e s]
  by (auto simp add: stopAllCameras_def removeSubscription_def sdkTry_def sdk_def
      split: prod.splits option.splits)





subsection \<open>What the screens do with an exception of the stop routine\<close>

lemma orReport_stop:
  "orReport (stopAllCameras e s) k =
     (if removeReturns e s then k (snd (stopAllCameras e s))
      else (snd (stopAllCameras e s))\<lparr>unhandled := unhandled (snd (stopAllCameras e s)) @ [SdkError]\<rparr>)"
proof (cases "fst (stopAllCameras e s) = Inr ()")
  case True
  then show ?thesis
    using stopAllCameras_fst[of e s] by (cases "stopAllCameras e s") (simp add: orReport_def)
next
  case False
  then have "fst (stopAllCameras e s) = Inl SdkError" by (rule stopAllCameras_raised(3))
  then show ?thesis
    using False stopAllCameras_fst[of e s] by (cases "stopAllCameras e s") (simp add: orReport_def)
qed

lemma orReport_stopAll:
  "orReport (stopAll e s) k =
     (if removeReturns e s then k (snd (stopAllCameras e s))
      else (snd (stopAllCameras e s))\<lparr>unhandled := unhandled (snd (stopAllCameras e s)) @ [SdkError]\<rparr>)"
  by (simp add: stopAll_eq orReport_stop)

lemma stopBlock_log_length:
  "length (calls (snd (stopBlock e s))) = length (calls (snd (stopBlock e s'))) "
  if "length (calls s) = length (calls s')"
  using that
  by (simp add: stopBlock_def andThen_def sdkTry_def sdk_def split: prod.splits sum.splits)

lemma removeReturns_cong:
  "subscriptionRef s = subscriptionRef s' \<Longrightarrow> length (calls s) = length (calls s') \<Longrightarrow>
     removeReturns e s = removeReturns e s'"
  using stopBlock_log_length[of s s' e]
  by (simp add: removeReturns_def split: option.splits)


lemma removeReturns_unsubscribed: "subscriptionRef s = None \<Longrightarrow> removeReturns e s"
  by (simp add: removeReturns_def)

lemma orReport_stop_returns:
  "removeReturns e s \<Longrightarrow> orReport (stopAllCameras e s) k = k (snd (stopAllCameras e s))"
  "removeReturns e s \<Longrightarrow> orReport (stopAll e s) k = k (snd (stopAllCameras e s))"
  by (simp_all add: orReport_stop orReport_stopAll)

subsection \<open>Decode events\<close>








subsection \<open>One subscription\<close>

lemma stopAllCameras_tracked:
  "tracked s \<Longrightarrow> fst (stopAllCameras e s) = Inr () \<Longrightarrow>
     listeners (snd (stopAllCameras e s)) = [] \<and> subscriptionRef (snd (stopAllCameras e s)) = None"
  by (simp add: stopAllCameras_returned tracked_def split: option.splits)

lemma stopAllCameras_tracked': "tracked s \<Longrightarrow> tracked (snd (stopAllCameras e s))"
proof (cases "fst (stopAllCameras e s) = Inr ()")
  case True
  assume "tracked s"
  then show ?thesis
    using stopAllCameras_tracked[of s e] True by (simp add: tracked_def)
next
  case False
  assume "tracked s"
  then show ?thesis
    using stopAllCameras_raised(1,2)[OF False] by (simp add: tracked_def)
qed

lemma orReport_stop_tracked:
  assumes "tracked s" and "\<And>s'. tracked s' \<Longrightarrow> tracked (k s')"
  shows "tracked (orReport (stopAllCameras e s) k)"
proof -
  have t: "tracked (snd (stopAllCameras e s))" using assms(1) by (rule stopAllCameras_tracked')
  then have "tracked ((snd (stopAllCameras e s))\<lparr>unhandled := u\<rparr>)" for u
    by (simp add: tracked_def)
  then show ?thesis using t assms(2) by (simp add: orReport_stop)
qed

lemma orReport_stopAll_tracked:
  assumes "tracked s" and "\<And>s'. tracked s' \<Longrightarrow> tracked (k s')"
  shows "tracked (orReport (stopAll e s) k)"
  unfolding stopAll_eq using assms by (rule orReport_stop_tracked)

lemma startCortex_rest_tracked: "tracked s \<Longrightarrow> tracked (startCortex_rest s)"
  by (simp add: tracked_def startCortex_rest_def addListener_def sdk_def split: option.splits)

lemma startCortex_rest_attached:
  "subscriptionRef s = Some h \<Longrightarrow>
     startCortex_rest s = s\<lparr>calls := calls s @ [StartCamera, StartPreview, SetVideoCapturing True, SetDecoding True],
        camera := True, preview := True, capturing := True, decoding := True\<rparr>"
  by (simp add: startCortex_rest_def sdk_def)

lemma startCortex_tracked: "tracked s \<Longrightarrow> tracked (snd (startCortex e s))"
  by (auto simp add: startCortex_def ensureLicenseActivated_def startCortex_rest_tracked Let_def
      split: option.splits) (simp_all add: tracked_def sdk_def)

lemma startCortex_resume_tracked: "tracked s \<Longrightarrow> tracked (snd (startCortex_resume ok s))"
proof -
  assume t: "tracked s"
  have "tracked (s\<lparr>licenseActivatedRef := True\<rparr>)" using t by (simp add: tracked_def)
  then show ?thesis
    using t by (simp add: startCortex_resume_def ensureLicenseActivated_resume_def startCortex_rest_tracked)
qed

lemma floating_session:
  "subscriptionRef (floating r) = subscriptionRef (snd r)" "listeners (floating r) = listeners (snd r)"
  "licenseActivatedRef (floating r) = licenseActivatedRef (snd r)" "calls (floating r) = calls (snd r)"
  "component.more (floating r) = component.more (snd r)"
  "alive (floating r) = alive (snd r)" "scannerType (floating r) = scannerType (snd r)"
  "androidPermission (floating r) = androidPermission (snd r)"
  "hasPermission (floating r) = hasPermission (snd r)"
  by (cases r; simp add: floating_def split: outcome.splits)+

lemma floating_tracked: "tracked (floating r) = tracked (snd r)"
  by (simp add: tracked_def floating_session)

lemma setLastResult_tracked: "tracked (setLastResult v s) = tracked s"
  by (simp add: setLastResult_def tracked_def)

lemma view_tracked:
  "tracked (setResult v s) = tracked s" "tracked (setState w s) = tracked s"
  by (simp_all add: setResult_def setState_def tracked_def)

lemma start_body_tracked:
  "tracked s1 \<Longrightarrow>
     tracked (if \<not> (mountedCells s1 ! n) then s1
              else if scannerType s1 = Cortex then
                (case startCortex e s1 of
                   (Awaiting, s2) \<Rightarrow> s2\<lparr>pending := pending s2 @ [n]\<rparr>
                 | r \<Rightarrow> floating r)
              else s1)"
proof -
  assume t1: "tracked s1"
  have t2: "tracked (snd (startCortex e s1))" using t1 by (rule startCortex_tracked)
  obtain r s2 where sc: "startCortex e s1 = (r, s2)" by (cases "startCortex e s1")
  have t2': "tracked s2" using t2 sc by simp
  have "tracked (case (r, s2) of (Awaiting, s2) \<Rightarrow> s2\<lparr>pending := pending s2 @ [n]\<rparr>
                 | r \<Rightarrow> floating r)"
    using t2' by (cases r) (simp_all add: floating_tracked, simp add: tracked_def)
  then show ?thesis using t1 by (simp add: sc)
qed

lemma scannerEffect_tracked: "tracked s \<Longrightarrow> tracked (scannerEffect e s)"
  unfolding scannerEffect_def Let_def
  by (rule orReport_stop_tracked) (simp add: tracked_def, rule start_body_tracked)

lemma effectCleanup_tracked: "tracked s \<Longrightarrow> tracked (effectCleanup e s)"
  unfolding effectCleanup_def
  by (rule orReport_stop_tracked) (simp_all add: tracked_def)

lemma step_tracked: "tracked s \<Longrightarrow> tracked (step e x s)"
proof (cases x)
  case (SelectScanner t)
  assume tr: "tracked s"
  have "tracked ((setLastResult [] s)\<lparr>scannerType := t\<rparr>)"
    using tr by (simp add: setLastResult_def tracked_def)
  then have "tracked (scannerEffect e (effectCleanup e ((setLastResult [] s)\<lparr>scannerType := t\<rparr>)))"
    by (intro scannerEffect_tracked effectCleanup_tracked)
  then show ?thesis
    using tr SelectScanner by (simp add: Let_def setLastResult_tracked)
next
  case (ActivationSettled ok)
  assume tr: "tracked s"
  show ?thesis
  proof (cases "pending s")
    case Nil
    then show ?thesis using tr ActivationSettled by simp
  next
    case (Cons eid rest)
    have "tracked (s\<lparr>pending := rest\<rparr>)" using tr by (simp add: tracked_def)
    then have "tracked (snd (startCortex_resume ok (s\<lparr>pending := rest\<rparr>)))"
      by (rule startCortex_resume_tracked)
    then show ?thesis using ActivationSettled Cons by (simp add: floating_tracked)
  qed
next
  case (DecodeResult b)
  assume tr: "tracked s"
  then show ?thesis using DecodeResult
    by (simp add: onDecodeResult_def setLastResult_tracked split: option.splits list.splits)
next
  case (CodeScanned cs)
  assume tr: "tracked s"
  then show ?thesis using CodeScanned
    by (simp add: onCodeScanned_def setLastResult_tracked split: list.splits)
next
  case Unmount
  assume tr: "tracked s"
  have "tracked ((effectCleanup e s)\<lparr>alive := False\<rparr>) = tracked (effectCleanup e s)"
    by (simp add: tracked_def)
  then show ?thesis using Unmount tr by (simp add: effectCleanup_tracked)
qed (simp_all add: tracked_def)

lemma run_tracked: "tracked s \<Longrightarrow> tracked (run e es s)"
  unfolding run_def by (induction es arbitrary: s) (simp_all add: step_tracked)

lemma mount_tracked: "tracked (mount e)"
  unfolding mount_def by (rule scannerEffect_tracked) (simp add: tracked_def init_def)

lemma pressStart_tracked: "tracked s \<Longrightarrow> tracked (pressStart e s)"
proof -
  assume t: "tracked s"
  let ?s1 = "setState Scanning (setResult [] s)"
  have t1: "tracked ?s1" using t by (simp add: view_tracked)
  have t2: "tracked (snd (startCortex e ?s1))" using t1 by (rule startCortex_tracked)
  obtain r s2 where sc: "startCortex e ?s1 = (r, s2)" by (cases "startCortex e ?s1")
  have t2': "tracked s2" using t2 sc by simp
  have "tracked (case (r, s2) of (Awaiting, s2) \<Rightarrow> s2\<lparr>pendingStarts := Suc (pendingStarts s2)\<rparr>
                 | r \<Rightarrow> floating r)"
    using t2' by (cases r) (simp_all add: floating_tracked, simp add: tracked_def)
  then show ?thesis
    using t1 by (simp add: pressStart_def Let_def sc)
qed

lemma step_v1_tracked: "tracked s \<Longrightarrow> tracked (step_v1 e x s)"
proof (cases x)
  case PressStart
  assume "tracked s"
  then show ?thesis using PressStart by (simp add: pressStart_tracked)
next
  case PressClose
  assume "tracked s"
  then have "tracked (orReport (stopAll e s) (setState Idle))"
    by (rule orReport_stopAll_tracked) (simp add: view_tracked)
  then show ?thesis using PressClose \<open>tracked s\<close> by simp
next
  case PressReadAnother
  assume "tracked s"
  then show ?thesis using PressReadAnother by (simp add: view_tracked)
next
  case (ActivationSettled ok)
  assume tr: "tracked s"
  have "tracked (s\<lparr>pendingStarts := pendingStarts s - 1\<rparr>)" using tr by (simp add: tracked_def)
  then have "tracked (snd (startCortex_resume ok (s\<lparr>pendingStarts := pendingStarts s - 1\<rparr>)))"
    by (rule startCortex_resume_tracked)
  then show ?thesis using ActivationSettled tr by (simp add: floating_tracked)
next
  case (DecodeResult b)
  assume tr: "tracked s"
  have "tracked (orReport (stopAll e (setResult v s)) (setState Result))" for v
    by (rule orReport_stopAll_tracked) (simp_all add: view_tracked tr)
  then show ?thesis using DecodeResult tr
    by (simp add: onDecodeResult_v1_def split: option.splits list.splits)
next
  case (CodeScanned cs)
  assume tr: "tracked s"
  then show ?thesis using CodeScanned
    by (simp add: onCodeScanned_v1_def view_tracked split: list.splits option.splits)
next
  case Unmount
  assume tr: "tracked s"
  have "tracked (orReport (stopAll e s) (\<lambda>s1. s1))"
    using tr by (rule orReport_stopAll_tracked)
  then have "tracked ((orReport (stopAll e s) (\<lambda>s1. s1))\<lparr>alive := False\<rparr>)"
    by (simp add: tracked_def)
  then show ?thesis using Unmount tr by simp
qed (simp_all add: tracked_def)

lemma run_v1_tracked: "tracked s \<Longrightarrow> tracked (run_v1 e es s)"
  unfolding run_v1_def by (induction es arbitrary: s) (simp_all add: step_v1_tracked)

lemma init_v1_tracked: "tracked (init_v1 e)"
  by (simp add: tracked_def init_v1_def)

lemma tracked_facts:
  assumes t: "tracked s"
  shows "listeners s = (case subscriptionRef s of None \<Rightarrow> [] | Some h \<Rightarrow> [h])"
    and "length (listeners s) \<le> 1"
    and "subscriptionRef s \<noteq> None \<longrightarrow>
           listeners (startCortex_rest s) = listeners s
         \<and> subscriptionRef (startCortex_rest s) = subscriptionRef s"
    and "fst (stopAllCameras e s) = Inr () \<longrightarrow>
           listeners (snd (stopAllCameras e s)) = [] \<and> subscriptionRef (snd (stopAllCameras e s)) = None"
proof -
  show a: "listeners s = (case subscriptionRef s of None \<Rightarrow> [] | Some h \<Rightarrow> [h])"
    using t by (simp add: tracked_def)
  show "length (listeners s) \<le> 1" by (simp add: a split: option.splits)
  show "subscriptionRef s \<noteq> None \<longrightarrow>
           listeners (startCortex_rest s) = listeners s
         \<and> subscriptionRef (startCortex_rest s) = subscriptionRef s"
    by (auto simp add: startCortex_rest_attached)
  show "fst (stopAllCameras e s) = Inr () \<longrightarrow>
           listeners (snd (stopAllCameras e s)) = [] \<and> subscriptionRef (snd (stopAllCameras e s)) = None"
    using t by (simp add: stopAllCameras_tracked)
qed

lemma unmount_clears:
  assumes t: "tracked s" and a: "alive s" and r: "removeReturns e s"
  shows "listeners (step e Unmount s) = [] \<and> subscriptionRef (step e Unmount s) = None"
proof -
  let ?s0 = "s\<lparr>mountedCells := (mountedCells s)[length (mountedCells s) - 1 := False]\<rparr>"
  have t0: "tracked ?s0" using t by (simp add: tracked_def)
  have r0: "removeReturns e ?s0" using r removeReturns_cong[of ?s0 s e] by simp
  have f: "fst (stopAllCameras e ?s0) = Inr ()" using r0 by (simp add: stopAllCameras_fst)
  have c: "effectCleanup e s = snd (stopAllCameras e ?s0)"
    unfolding effectCleanup_def using r0 by (rule orReport_stop_returns(1))
  show ?thesis
    using a stopAllCameras_tracked[OF t0 f] by (simp add: c)
qed

lemma unmount_v1_clears:
  assumes t: "tracked s" and a: "alive s" and r: "removeReturns e s"
  shows "listeners (step_v1 e Unmount s) = [] \<and> subscriptionRef (step_v1 e Unmount s) = None"
proof -
  have f: "fst (stopAllCameras e s) = Inr ()" using r by (simp add: stopAllCameras_fst)
  show ?thesis
    using a stopAllCameras_tracked[OF t f] by (simp add: orReport_stop_returns(2)[OF r])
qed

lemma close_clears:
  assumes t: "tracked s" and a: "alive s" "ready s" "state s = Scanning"
    and r: "removeReturns e s"
  shows "listeners (step_v1 e PressClose s) = [] \<and> subscriptionRef (step_v1 e PressClose s) = None
    \<and> state (step_v1 e PressClose s) = Idle"
proof -
  have f: "fst (stopAllCameras e s) = Inr ()" using r by (simp add: stopAllCameras_fst)
  have al: "alive (snd (stopAllCameras e s))" using a(1) by (simp add: stopAllCameras_component)
  show ?thesis
    using a al stopAllCameras_tracked[OF t f]
    by (simp add: orReport_stop_returns(2)[OF r] setState_def)
qed

text \<open>
  At most one subscription, on both screens. After any events whatever, the listeners
  alive are exactly the subscription held in \<^verbatim>\<open>subscriptionRef\<close>, so at most one; with a
  subscription held, the rest of \<^verbatim>\<open>startCortex\<close> adds none and keeps the ref; a call of
  the stop routine that returns leaves no listener alive and the ref cleared; and so do,
  when \<^verbatim>\<open>remove()\<close> returns, unmounting a mounted screen and, on the explicit-lifecycle
  screen, the close button, at the moment they run.
\<close>

theorem at_most_one_subscription:
  "(let s = run e es (mount e)
    in listeners s = (case subscriptionRef s of None \<Rightarrow> [] | Some h \<Rightarrow> [h])
     \<and> length (listeners s) \<le> 1
     \<and> (subscriptionRef s \<noteq> None \<longrightarrow>
           listeners (startCortex_rest s) = listeners s
         \<and> subscriptionRef (startCortex_rest s) = subscriptionRef s)
     \<and> (fst (stopAllCameras e s) = Inr () \<longrightarrow>
           listeners (snd (stopAllCameras e s)) = [] \<and> subscriptionRef (snd (stopAllCameras e s)) = None)
     \<and> (alive s \<and> removeReturns e s \<longrightarrow>
           listeners (step e Unmount s) = [] \<and> subscriptionRef (step e Unmount s) = None))
 \<and> (let s = run_v1 e es' (init_v1 e)
    in listeners s = (case subscriptionRef s of None \<Rightarrow> [] | Some h \<Rightarrow> [h])
     \<and> length (listeners s) \<le> 1
     \<and> (subscriptionRef s \<noteq> None \<longrightarrow>
           listeners (startCortex_rest s) = listeners s
         \<and> subscriptionRef (startCortex_rest s) = subscriptionRef s)
     \<and> (fst (stopAll e s) = Inr () \<longrightarrow>
           listeners (snd (stopAll e s)) = [] \<and> subscriptionRef (snd (stopAll e s)) = None)
     \<and> (alive s \<and> removeReturns e s \<longrightarrow>
           listeners (step_v1 e Unmount s) = [] \<and> subscriptionRef (step_v1 e Unmount s) = None)
     \<and> (alive s \<and> ready s \<and> state s = Scanning \<and> removeReturns e s \<longrightarrow>
           listeners (step_v1 e PressClose s) = [] \<and> subscriptionRef (step_v1 e PressClose s) = None
         \<and> state (step_v1 e PressClose s) = Idle))"
proof -
  have t: "tracked (run e es (mount e))"
    by (rule run_tracked[OF mount_tracked])
  have t1: "tracked (run_v1 e es' (init_v1 e))"
    by (rule run_v1_tracked[OF init_v1_tracked])
  show ?thesis
    unfolding Let_def stopAll_eq
    using tracked_facts(1-3)[OF t] tracked_facts(4)[OF t, of e]
      tracked_facts(1-3)[OF t1] tracked_facts(4)[OF t1, of e]
      unmount_clears[OF t, of e] unmount_v1_clears[OF t1, of e] close_clears[OF t1, of e]
    by blast
qed

theorem at_most_one_subscription_witness:
  "subscriptionRef cortexLive \<noteq> None
   \<and> fst (stopAllCameras exampleEnv cortexLive) = Inr ()
   \<and> alive cortexLive \<and> removeReturns exampleEnv cortexLive
   \<and> listeners cortexLive = [0]
   \<and> listeners (startCortex_rest cortexLive) = listeners cortexLive
   \<and> listeners (snd (stopAllCameras exampleEnv cortexLive)) = []
   \<and> listeners (step exampleEnv Unmount cortexLive) = []
   \<and> subscriptionRef cortexScanning_v1 \<noteq> None
   \<and> fst (stopAll exampleEnv cortexScanning_v1) = Inr ()
   \<and> alive cortexScanning_v1 \<and> ready cortexScanning_v1 \<and> state cortexScanning_v1 = Scanning
   \<and> removeReturns exampleEnv cortexScanning_v1
   \<and> listeners (startCortex_rest cortexScanning_v1) = listeners cortexScanning_v1
   \<and> listeners (snd (stopAll exampleEnv cortexScanning_v1)) = []
   \<and> listeners (step_v1 exampleEnv Unmount cortexScanning_v1) = []
   \<and> listeners (step_v1 exampleEnv PressClose cortexScanning_v1) = []"
proof -
  have a: "subscriptionRef cortexLive \<noteq> None" "fst (stopAllCameras exampleEnv cortexLive) = Inr ()"
    "alive cortexLive" "removeReturns exampleEnv cortexLive" "listeners cortexLive = [0]"
    by code_simp+
  have a1: "subscriptionRef cortexScanning_v1 \<noteq> None"
    "fst (stopAll exampleEnv cortexScanning_v1) = Inr ()"
    "alive cortexScanning_v1" "ready cortexScanning_v1" "state cortexScanning_v1 = Scanning"
    "removeReturns exampleEnv cortexScanning_v1"
    by code_simp+
  from at_most_one_subscription[of exampleEnv "[ActivationSettled True]"
      "[PressStart, ActivationSettled True]"] a a1
  show ?thesis unfolding Let_def cortexLive_def cortexScanning_v1_def by blast
qed

subsection \<open>Without a license key\<close>

lemma stopAllCameras_unstarted: "unstarted s \<Longrightarrow> unstarted (snd (stopAllCameras e s))"
proof -
  assume u: "unstarted s"
  then have n: "subscriptionRef s = None" by (simp add: unstarted_def)
  have r: "fst (stopAllCameras e s) = Inr ()" using n by (rule stopAllCameras_unsubscribed)
  show ?thesis
    using u stopAllCameras_calls[OF n, of e] stopAllCameras_returned[OF r]
    by (auto simp add: unstarted_def stopAllCameras_keeps stopAllCameras_component)
qed

lemma orReport_stop_unstarted:
  "unstarted s \<Longrightarrow> orReport (stopAllCameras e s) k = k (snd (stopAllCameras e s))"
  "unstarted s \<Longrightarrow> orReport (stopAll e s) k = k (snd (stopAllCameras e s))"
  by (simp_all add: orReport_stop_returns removeReturns_unsubscribed unstarted_def)

lemma startCortex_unstarted:
  "licenseKeyMissing e \<Longrightarrow> unstarted s \<Longrightarrow> startCortex e s = (Rejected MissingCredential, s)"
  by (simp add: unstarted_def startCortex_missing)

lemma unstarted_log:
  assumes "unstarted s"
  shows "activations (calls s) = 0" "StartCamera \<notin> set (calls s)" "StartPreview \<notin> set (calls s)"
    "SetVideoCapturing True \<notin> set (calls s)" "SetDecoding True \<notin> set (calls s)"
proof -
  have sub: "set (calls s) \<subseteq> stopCalls" using assms by (simp add: unstarted_def)
  have "\<forall>c \<in> set (calls s). \<not> (case c of ActivateLicense k \<Rightarrow> True | _ \<Rightarrow> False)"
    using sub by (auto simp add: stopCalls_def)
  then show "activations (calls s) = 0" by (simp add: activations_def)
  show "StartCamera \<notin> set (calls s)" "StartPreview \<notin> set (calls s)"
    "SetVideoCapturing True \<notin> set (calls s)" "SetDecoding True \<notin> set (calls s)"
    using sub by (auto simp add: stopCalls_def)
qed

lemma view_unstarted:
  "unstarted (setResult v s) = unstarted s" "unstarted (setState w s) = unstarted s"
  "pendingStarts (setResult v s) = pendingStarts s" "pendingStarts (setState w s) = pendingStarts s"
  "scannerType (setResult v s) = scannerType s" "scannerType (setState w s) = scannerType s"
  by (simp_all add: setResult_def setState_def unstarted_def)

lemma scannerEffect_unstarted:
  assumes k: "licenseKeyMissing e" and u: "unstarted s" and p: "pending s = []"
  shows "unstarted (scannerEffect e s) \<and> pending (scannerEffect e s) = []"
proof -
  let ?s0 = "s\<lparr>mountedCells := mountedCells s @ [True]\<rparr>"
  let ?s1 = "snd (stopAllCameras e ?s0)"
  have u0: "unstarted ?s0" using u by (simp add: unstarted_def)
  then have u1: "unstarted ?s1" by (rule stopAllCameras_unstarted)
  have p1: "pending ?s1 = []" "mountedCells ?s1 ! length (mountedCells s)"
    using p by (simp_all add: stopAllCameras_screen)
  have sc: "startCortex e ?s1 = (Rejected MissingCredential, ?s1)"
    using k u1 by (rule startCortex_unstarted)
  have f: "unstarted (floating (Rejected MissingCredential, ?s1))
      \<and> pending (floating (Rejected MissingCredential, ?s1)) = []"
    using u1 p1 by (simp add: floating_def unstarted_def)
  show ?thesis
    using u1 p1 f by (simp add: scannerEffect_def Let_def orReport_stop_unstarted(1)[OF u0] sc)
qed

lemma effectCleanup_unstarted:
  assumes u: "unstarted s" and p: "pending s = []"
  shows "unstarted (effectCleanup e s) \<and> pending (effectCleanup e s) = []"
proof -
  let ?s0 = "s\<lparr>mountedCells := (mountedCells s)[length (mountedCells s) - 1 := False]\<rparr>"
  have u0: "unstarted ?s0" using u by (simp add: unstarted_def)
  then have "unstarted (snd (stopAllCameras e ?s0))" by (rule stopAllCameras_unstarted)
  then show ?thesis
    unfolding effectCleanup_def orReport_stop_unstarted(1)[OF u0]
    using p by (simp add: stopAllCameras_screen)
qed

lemma step_unstarted:
  assumes k: "licenseKeyMissing e" and u: "unstarted s" and p: "pending s = []"
  shows "unstarted (step e x s) \<and> pending (step e x s) = []"
proof (cases x)
  case (SelectScanner t)
  let ?s1 = "(setLastResult [] s)\<lparr>scannerType := t\<rparr>"
  have u1: "unstarted (setLastResult [] s) \<and> pending (setLastResult [] s) = []"
    using u p by (simp add: setLastResult_def unstarted_def)
  have "unstarted ?s1 \<and> pending ?s1 = []"
    using u1 by (simp add: unstarted_def)
  then have "unstarted (effectCleanup e ?s1) \<and> pending (effectCleanup e ?s1) = []"
    by (simp add: effectCleanup_unstarted)
  then have "unstarted (scannerEffect e (effectCleanup e ?s1))
      \<and> pending (scannerEffect e (effectCleanup e ?s1)) = []"
    using k by (simp add: scannerEffect_unstarted)
  then show ?thesis
    using SelectScanner u p u1 by (simp add: Let_def)
next
  case (ActivationSettled ok)
  then show ?thesis using u p by simp
next
  case (DecodeResult b)
  then show ?thesis using u p by (simp add: unstarted_def)
next
  case (CodeScanned cs)
  then show ?thesis using u p
    by (simp add: onCodeScanned_def setLastResult_def unstarted_def split: list.splits)
next
  case Unmount
  have "unstarted ((effectCleanup e s)\<lparr>alive := False\<rparr>) = unstarted (effectCleanup e s)"
    by (simp add: unstarted_def)
  then show ?thesis using Unmount effectCleanup_unstarted[OF u p, of e] u p by simp
qed (use u p in \<open>simp_all add: unstarted_def\<close>)

lemma run_unstarted:
  "licenseKeyMissing e \<Longrightarrow> unstarted s \<Longrightarrow> pending s = [] \<Longrightarrow>
     unstarted (run e es s) \<and> pending (run e es s) = []"
proof (induction es arbitrary: s)
  case Nil
  then show ?case by (simp add: run_def)
next
  case (Cons x xs)
  have "unstarted (step e x s) \<and> pending (step e x s) = []"
    using Cons.prems by (intro step_unstarted)
  then have "unstarted (run e xs (step e x s)) \<and> pending (run e xs (step e x s)) = []"
    using Cons.IH Cons.prems(1) by blast
  then show ?case by (simp add: run_def)
qed

lemma mount_unstarted:
  "licenseKeyMissing e \<Longrightarrow> unstarted (mount e) \<and> pending (mount e) = []"
  unfolding mount_def
  by (rule scannerEffect_unstarted) (simp_all add: unstarted_def init_def)

lemma pressStart_unstarted:
  assumes k: "licenseKeyMissing e" and u: "unstarted s" and p: "pendingStarts s = 0"
  shows "unstarted (pressStart e s) \<and> pendingStarts (pressStart e s) = 0"
proof -
  let ?s1 = "setState Scanning (setResult [] s)"
  have u1: "unstarted ?s1" and p1: "pendingStarts ?s1 = 0"
    using u p by (simp_all add: view_unstarted)
  have sc: "startCortex e ?s1 = (Rejected MissingCredential, ?s1)"
    using k u1 by (rule startCortex_unstarted)
  have "unstarted (floating (Rejected MissingCredential, ?s1))
      \<and> pendingStarts (floating (Rejected MissingCredential, ?s1)) = 0"
    using u1 p1 by (simp add: floating_def unstarted_def)
  then show ?thesis
    using u1 p1 by (simp add: pressStart_def Let_def sc)
qed

lemma step_v1_unstarted:
  assumes k: "licenseKeyMissing e" and u: "unstarted s" and p: "pendingStarts s = 0"
  shows "unstarted (step_v1 e x s) \<and> pendingStarts (step_v1 e x s) = 0"
proof (cases x)
  case PressStart
  then show ?thesis using pressStart_unstarted[OF k u p] u p by simp
next
  case PressClose
  have "unstarted (snd (stopAllCameras e s))" using u by (rule stopAllCameras_unstarted)
  moreover have "pendingStarts (snd (stopAllCameras e s)) = 0"
    using p by (simp add: stopAllCameras_screen_v1)
  ultimately show ?thesis
    using PressClose u p by (simp add: view_unstarted orReport_stop_unstarted(2)[OF u])
next
  case PressReadAnother
  then show ?thesis using u p by (simp add: view_unstarted)
next
  case (DecodeResult b)
  then show ?thesis using u p by (simp add: unstarted_def)
next
  case (CodeScanned cs)
  then show ?thesis using u p
    by (simp add: onCodeScanned_v1_def view_unstarted split: list.splits option.splits)
next
  case Unmount
  have "unstarted (snd (stopAllCameras e s))" using u by (rule stopAllCameras_unstarted)
  then have "unstarted ((snd (stopAllCameras e s))\<lparr>alive := False\<rparr>)" by (simp add: unstarted_def)
  moreover have "pendingStarts (snd (stopAllCameras e s)) = 0"
    using p by (simp add: stopAllCameras_screen_v1)
  ultimately show ?thesis
    using Unmount u p by (simp add: orReport_stop_unstarted(2)[OF u])
qed (use u p in \<open>simp_all add: unstarted_def\<close>)

lemma run_v1_unstarted:
  "licenseKeyMissing e \<Longrightarrow> unstarted s \<Longrightarrow> pendingStarts s = 0 \<Longrightarrow>
     unstarted (run_v1 e es s) \<and> pendingStarts (run_v1 e es s) = 0"
proof (induction es arbitrary: s)
  case Nil
  then show ?case by (simp add: run_v1_def)
next
  case (Cons x xs)
  have "unstarted (step_v1 e x s) \<and> pendingStarts (step_v1 e x s) = 0"
    using Cons.prems by (intro step_v1_unstarted)
  then have "unstarted (run_v1 e xs (step_v1 e x s)) \<and> pendingStarts (run_v1 e xs (step_v1 e x s)) = 0"
    using Cons.IH Cons.prems(1) by blast
  then show ?case by (simp add: run_v1_def)
qed

lemma init_v1_unstarted: "unstarted (init_v1 e) \<and> pendingStarts (init_v1 e) = 0"
  by (simp add: unstarted_def init_v1_def)

text \<open>
  C4. Without a license key (undefined or empty), on both screens and after any events
  whatever: \<^verbatim>\<open>startCortex\<close> rejects with the missing-key error and leaves the state as
  it is, so it issues no call at all; the log holds no \<^verbatim>\<open>activateLicense\<close>, no
  \<^verbatim>\<open>startCamera\<close>, \<^verbatim>\<open>startPreview\<close>, \<^verbatim>\<open>setVideoCapturing(true)\<close> or
  \<^verbatim>\<open>setDecoding(true)\<close>; and every rejection recorded is the missing-key error.
\<close>

theorem missing_key_blocks_every_cortex_start:
  assumes "licenseKeyMissing e"
  shows "(let s = run e es (mount e)
          in startCortex e s = (Rejected MissingCredential, s)
           \<and> activations (calls s) = 0
           \<and> StartCamera \<notin> set (calls s) \<and> StartPreview \<notin> set (calls s)
           \<and> SetVideoCapturing True \<notin> set (calls s) \<and> SetDecoding True \<notin> set (calls s)
           \<and> set (unhandled s) \<subseteq> {MissingCredential})
       \<and> (let s = run_v1 e es' (init_v1 e)
          in startCortex e s = (Rejected MissingCredential, s)
           \<and> activations (calls s) = 0
           \<and> StartCamera \<notin> set (calls s) \<and> StartPreview \<notin> set (calls s)
           \<and> SetVideoCapturing True \<notin> set (calls s) \<and> SetDecoding True \<notin> set (calls s)
           \<and> set (unhandled s) \<subseteq> {MissingCredential})"
proof -
  have u: "unstarted (run e es (mount e))"
    using run_unstarted[OF assms, of "mount e" es] mount_unstarted[OF assms] by blast
  have u1: "unstarted (run_v1 e es' (init_v1 e))"
    using run_v1_unstarted[OF assms, of "init_v1 e" es'] init_v1_unstarted[of e] by simp
  have h: "set (unhandled s) \<subseteq> {MissingCredential}" if "unstarted s" for s :: "'a component_scheme"
    using that by (simp add: unstarted_def)
  show ?thesis
    unfolding Let_def
    using startCortex_unstarted[OF assms u] unstarted_log[OF u] h[OF u]
      startCortex_unstarted[OF assms u1] unstarted_log[OF u1] h[OF u1]
    by blast
qed

theorem missing_key_blocks_every_cortex_start_witness:
  "licenseKeyMissing noKeyEnv
   \<and> startCortex noKeyEnv (run noKeyEnv [SelectScanner Vision, SelectScanner Cortex] (mount noKeyEnv)) =
       (Rejected MissingCredential, run noKeyEnv [SelectScanner Vision, SelectScanner Cortex] (mount noKeyEnv))
   \<and> activations (calls (run noKeyEnv [SelectScanner Vision, SelectScanner Cortex] (mount noKeyEnv))) = 0
   \<and> StartCamera \<notin> set (calls (run noKeyEnv [SelectScanner Vision, SelectScanner Cortex] (mount noKeyEnv)))
   \<and> StartCamera \<notin> set (calls (run_v1 noKeyEnv [PressStart] (init_v1 noKeyEnv)))"
proof -
  have k: "licenseKeyMissing noKeyEnv"
    by (simp add: licenseKeyMissing_def noKeyEnv_def exampleEnv_def)
  from missing_key_blocks_every_cortex_start[OF k, of "[SelectScanner Vision, SelectScanner Cortex]"
      "[PressStart]"] k
  show ?thesis unfolding Let_def by blast
qed

subsection \<open>Without the camera permission\<close>

lemma step_v1_denied:
  assumes d: "\<not> ready s" and u: "unstarted s" and p: "pendingStarts s = 0"
  shows "unstarted (step_v1 e x s) \<and> pendingStarts (step_v1 e x s) = 0"
proof (cases x)
  case Unmount
  have "unstarted (snd (stopAllCameras e s))" using u by (rule stopAllCameras_unstarted)
  then have "unstarted ((snd (stopAllCameras e s))\<lparr>alive := False\<rparr>)" by (simp add: unstarted_def)
  moreover have "pendingStarts (snd (stopAllCameras e s)) = 0"
    using p by (simp add: stopAllCameras_screen_v1)
  ultimately show ?thesis
    using Unmount u p by (simp add: orReport_stop_unstarted(2)[OF u])
next
  case (DecodeResult b)
  then show ?thesis using u p by (simp add: unstarted_def)
next
  case PressClose
  then show ?thesis using d u p by simp
qed (use d u p in \<open>simp_all add: unstarted_def ready_def render_v1_def\<close>)

lemma run_v1_denied:
  "deniedThroughout e es s \<Longrightarrow> unstarted s \<Longrightarrow> pendingStarts s = 0 \<Longrightarrow>
     unstarted (run_v1 e es s) \<and> pendingStarts (run_v1 e es s) = 0"
proof (induction es arbitrary: s)
  case Nil
  then show ?case by (simp add: run_v1_def)
next
  case (Cons x xs)
  have d: "\<not> ready s" and rest: "deniedThroughout e xs (step_v1 e x s)"
    using Cons.prems(1) by simp_all
  have "unstarted (step_v1 e x s) \<and> pendingStarts (step_v1 e x s) = 0"
    using d Cons.prems(2,3) by (intro step_v1_denied)
  then have "unstarted (run_v1 e xs (step_v1 e x s)) \<and> pendingStarts (run_v1 e xs (step_v1 e x s)) = 0"
    using Cons.IH rest by blast
  then show ?case by (simp add: run_v1_def)
qed

text \<open>
  What the permission guard of the render does keep back. Live-switch screen: while the
  permission is denied (one of the two grants missing), the render is the permission
  message, the vision camera is not rendered, scanned codes do not reach the screen and
  there is no button to press. Explicit-lifecycle screen: from the first render on, as
  long as the permission stays denied, the render is the permission message and no
  \<^verbatim>\<open>activateLicense\<close>, camera, preview, capture or decoder start is issued.
\<close>

theorem permission_denied_blocks_view_and_vision:
  "(\<not> ready s \<longrightarrow>
      render e s = PermissionMessage \<and> \<not> visionActive e s
    \<and> step e (CodeScanned cs) s = s \<and> step e (SelectScanner t) s = s)
 \<and> (deniedThroughout e es (init_v1 e) \<longrightarrow>
      (let s' = run_v1 e es (init_v1 e)
       in render_v1 e s' = PermissionMessage
        \<and> activations (calls s') = 0
        \<and> StartCamera \<notin> set (calls s') \<and> StartPreview \<notin> set (calls s')
        \<and> SetVideoCapturing True \<notin> set (calls s') \<and> SetDecoding True \<notin> set (calls s')))"
proof -
  have a: "render e s = PermissionMessage \<and> \<not> visionActive e s
      \<and> step e (CodeScanned cs) s = s \<and> step e (SelectScanner t) s = s" if "\<not> ready s"
    using that by (auto simp add: ready_def render_def visionActive_def)
  have b: "(let s' = run_v1 e es (init_v1 e)
       in render_v1 e s' = PermissionMessage
        \<and> activations (calls s') = 0
        \<and> StartCamera \<notin> set (calls s') \<and> StartPreview \<notin> set (calls s')
        \<and> SetVideoCapturing True \<notin> set (calls s') \<and> SetDecoding True \<notin> set (calls s'))"
    if d: "deniedThroughout e es (init_v1 e)"
  proof -
    have u: "unstarted (run_v1 e es (init_v1 e))"
      using run_v1_denied[OF d] init_v1_unstarted[of e] by simp
    have r: "\<not> ready (run_v1 e es s0)" if "deniedThroughout e es s0" for s0
      using that unfolding run_v1_def by (induction es arbitrary: s0) simp_all
    have "render_v1 e (run_v1 e es (init_v1 e)) = PermissionMessage"
      using r[OF d] by (auto simp add: ready_def render_v1_def)
    then show ?thesis
      unfolding Let_def using unstarted_log[OF u] by blast
  qed
  show ?thesis using a b by blast
qed

theorem permission_denied_blocks_view_and_vision_witness:
  "\<not> ready (mount deniedEnv) \<and> render deniedEnv (mount deniedEnv) = PermissionMessage
   \<and> step deniedEnv (SelectScanner Vision) (mount deniedEnv) = mount deniedEnv
   \<and> deniedThroughout deniedEnv [PressStart, CodeScanned [\<lparr>codeValue = Some ''QR''\<rparr>], Unmount] (init_v1 deniedEnv)
   \<and> StartCamera \<notin> set (calls (run_v1 deniedEnv
        [PressStart, CodeScanned [\<lparr>codeValue = Some ''QR''\<rparr>], Unmount] (init_v1 deniedEnv)))"
proof -
  have a: "\<not> ready (mount deniedEnv)" by code_simp
  have b: "deniedThroughout deniedEnv [PressStart, CodeScanned [\<lparr>codeValue = Some ''QR''\<rparr>], Unmount]
      (init_v1 deniedEnv)" by code_simp
  from permission_denied_blocks_view_and_vision[of "mount deniedEnv" deniedEnv _ Vision
      "[PressStart, CodeScanned [\<lparr>codeValue = Some ''QR''\<rparr>], Unmount]"] a b
  show ?thesis unfolding Let_def by blast
qed

text \<open>
  C2 fails on the live-switch screen: the guard blocks the render, and the effect on
  \<^verbatim>\<open>scannerType\<close> does not look at it. With the camera permission refused, the first
  render's effect calls \<^verbatim>\<open>start()\<close>, and once the license is activated the listener
  is attached and the camera, the preview, the capture and the decoder are started,
  under the permission message; what cortex then decodes is stored as the result.
\<close>

theorem cortex_starts_while_permission_denied:
  "\<not> ready (run deniedEnv [ActivationSettled True] (mount deniedEnv))
   \<and> blockingMessageShown deniedEnv (run deniedEnv [ActivationSettled True] (mount deniedEnv))
   \<and> calls (run deniedEnv [ActivationSettled True] (mount deniedEnv)) =
       [SetDecoding False, SetVideoCapturing False, StopPreview, StopCamera,
        SetCustomerId ''ReplaceExpirationLib'', ActivateLicense ''KEY'',
        AddListener 0, StartCamera, StartPreview, SetVideoCapturing True, SetDecoding True]
   \<and> cortexActive (run deniedEnv [ActivationSettled True] (mount deniedEnv))
   \<and> blockingMessageShown deniedEnv
        (run deniedEnv [ActivationSettled True, DecodeResult (Some [abc123])] (mount deniedEnv))
   \<and> lastResult (run deniedEnv [ActivationSettled True, DecodeResult (Some [abc123])] (mount deniedEnv)) =
       ''ABC123''"
  by code_simp

subsection \<open>A failed start on the explicit-lifecycle screen\<close>

text \<open>
  C10. Explicit-lifecycle screen, idle, cortex selected, the flag unset. Pressing the
  start button without a license key: the state becomes scanning, the result is
  cleared, the missing-key rejection is unhandled, and nothing else changes. With a
  key: the state becomes scanning, the activation is called and awaited; when it fails,
  the rejection is unhandled and the state stays scanning: no step sets it back to
  idle, and subscription, listeners and decoder are as they were before the press.
\<close>

theorem start_failure_leaves_scanning:
  assumes "alive s" and "ready s" and "state s = Idle" and "scannerType s = Cortex"
    and "\<not> licenseActivatedRef s"
  shows "(licenseKeyMissing e \<longrightarrow>
           step_v1 e PressStart s =
             s\<lparr>unhandled := unhandled s @ [MissingCredential], state := Scanning, result := []\<rparr>)
       \<and> (EXPO_PUBLIC_CORTEX_LICENSE_KEY e = Some k \<and> k \<noteq> [] \<longrightarrow>
           (let s1 = step_v1 e PressStart s; s2 = step_v1 e (ActivationSettled False) s1
            in s1 = s\<lparr>calls := calls s @ [SetCustomerId (customerIdOf e), ActivateLicense k],
                      state := Scanning, result := [], pendingStarts := Suc (pendingStarts s)\<rparr>
             \<and> s2 = s1\<lparr>unhandled := unhandled s @ [ActivationError], pendingStarts := pendingStarts s\<rparr>
             \<and> state s2 = Scanning \<and> subscriptionRef s2 = subscriptionRef s
             \<and> listeners s2 = listeners s \<and> decoding s2 = decoding s))"
proof -
  let ?s0 = "setState Scanning (setResult [] s)"
  have s0: "?s0 = s\<lparr>state := Scanning, result := []\<rparr>"
    using assms(1) by (simp add: setState_def setResult_def)
  have idle: "alive s \<and> render_v1 e s = IdleView"
    using assms(1-3) by (simp add: render_v1_def ready_def)
  have fresh0: "\<not> licenseActivatedRef ?s0" and cortex0: "scannerType ?s0 = Cortex"
    using assms(4,5) by (simp_all add: s0)
  have a: "step_v1 e PressStart s =
      s\<lparr>unhandled := unhandled s @ [MissingCredential], state := Scanning, result := []\<rparr>"
    if "licenseKeyMissing e"
    using idle cortex0 startCortex_missing[OF fresh0 that]
    by (simp add: pressStart_def Let_def floating_def) (simp add: s0)
  have b: "(let s1 = step_v1 e PressStart s; s2 = step_v1 e (ActivationSettled False) s1
            in s1 = s\<lparr>calls := calls s @ [SetCustomerId (customerIdOf e), ActivateLicense k],
                      state := Scanning, result := [], pendingStarts := Suc (pendingStarts s)\<rparr>
             \<and> s2 = s1\<lparr>unhandled := unhandled s @ [ActivationError], pendingStarts := pendingStarts s\<rparr>
             \<and> state s2 = Scanning \<and> subscriptionRef s2 = subscriptionRef s
             \<and> listeners s2 = listeners s \<and> decoding s2 = decoding s)"
    if "EXPO_PUBLIC_CORTEX_LICENSE_KEY e = Some k \<and> k \<noteq> []"
  proof -
    have key: "EXPO_PUBLIC_CORTEX_LICENSE_KEY e = Some k" and ne: "k \<noteq> []" using that by simp_all
    let ?s1 = "s\<lparr>calls := calls s @ [SetCustomerId (customerIdOf e), ActivateLicense k],
                  state := Scanning, result := [], pendingStarts := Suc (pendingStarts s)\<rparr>"
    have s1: "step_v1 e PressStart s = ?s1"
      using idle cortex0 startCortex_fresh[OF fresh0 key ne]
      by (simp add: pressStart_def Let_def) (simp add: s0)
    have s2: "step_v1 e (ActivationSettled False) ?s1 =
        ?s1\<lparr>unhandled := unhandled s @ [ActivationError], pendingStarts := pendingStarts s\<rparr>"
      by (simp add: startCortex_resume_failed floating_def)
    show ?thesis
      unfolding Let_def s1 s2 by simp
  qed
  show ?thesis using a b by blast
qed

theorem start_failure_leaves_scanning_witness:
  "licenseKeyMissing noKeyEnv
 \<and> state (step_v1 noKeyEnv PressStart (init_v1 noKeyEnv)) = Scanning
 \<and> unhandled (step_v1 noKeyEnv PressStart (init_v1 noKeyEnv)) =
     unhandled (init_v1 noKeyEnv) @ [MissingCredential]
 \<and> subscriptionRef (step_v1 noKeyEnv PressStart (init_v1 noKeyEnv)) = subscriptionRef (init_v1 noKeyEnv)
 \<and> decoding (step_v1 noKeyEnv PressStart (init_v1 noKeyEnv)) = decoding (init_v1 noKeyEnv)
 \<and> state (step_v1 exampleEnv (ActivationSettled False) (step_v1 exampleEnv PressStart (init_v1 exampleEnv))) = Scanning
 \<and> subscriptionRef (step_v1 exampleEnv (ActivationSettled False) (step_v1 exampleEnv PressStart (init_v1 exampleEnv))) =
     subscriptionRef (init_v1 exampleEnv)
 \<and> decoding (step_v1 exampleEnv (ActivationSettled False) (step_v1 exampleEnv PressStart (init_v1 exampleEnv))) =
     decoding (init_v1 exampleEnv)"
proof -
  have a: "alive (init_v1 noKeyEnv)" "ready (init_v1 noKeyEnv)" "state (init_v1 noKeyEnv) = Idle"
    "scannerType (init_v1 noKeyEnv) = Cortex" "\<not> licenseActivatedRef (init_v1 noKeyEnv)"
    by (simp_all add: init_v1_def ready_def noKeyEnv_def exampleEnv_def)
  have b: "alive (init_v1 exampleEnv)" "ready (init_v1 exampleEnv)" "state (init_v1 exampleEnv) = Idle"
    "scannerType (init_v1 exampleEnv) = Cortex" "\<not> licenseActivatedRef (init_v1 exampleEnv)"
    by (simp_all add: init_v1_def ready_def exampleEnv_def)
  have k: "licenseKeyMissing noKeyEnv"
    by (simp add: licenseKeyMissing_def noKeyEnv_def exampleEnv_def)
  have key: "EXPO_PUBLIC_CORTEX_LICENSE_KEY exampleEnv = Some ''KEY'' \<and> ''KEY'' \<noteq> []"
    by (simp add: exampleEnv_def)
  note A = start_failure_leaves_scanning[OF a, of noKeyEnv, THEN conjunct1, THEN mp, OF k]
  note B = start_failure_leaves_scanning[OF b, of exampleEnv "''KEY''", THEN conjunct2, THEN mp, OF key,
      unfolded Let_def]
  have first: "state (step_v1 noKeyEnv PressStart (init_v1 noKeyEnv)) = Scanning
     \<and> unhandled (step_v1 noKeyEnv PressStart (init_v1 noKeyEnv)) =
         unhandled (init_v1 noKeyEnv) @ [MissingCredential]
     \<and> subscriptionRef (step_v1 noKeyEnv PressStart (init_v1 noKeyEnv)) = subscriptionRef (init_v1 noKeyEnv)
     \<and> decoding (step_v1 noKeyEnv PressStart (init_v1 noKeyEnv)) = decoding (init_v1 noKeyEnv)"
    unfolding A by simp
  show ?thesis
    using k first B by blast
qed

subsection \<open>Once the license is activated\<close>

lemma stopBlock_no_throw: "\<forall>k. \<not> sdkThrows e k \<Longrightarrow> fst (stopBlock e s) = Inr ()"
  by (simp add: stopBlock_def andThen_def sdkTry_def)

lemma removeReturns_no_throw: "\<forall>k. \<not> sdkThrows e k \<Longrightarrow> removeReturns e s"
  by (simp add: removeReturns_def split: option.splits)

lemma effectCleanup_no_throw:
  "\<forall>k. \<not> sdkThrows e k \<Longrightarrow>
     effectCleanup e s =
       snd (stopAllCameras e
         (s\<lparr>mountedCells := (mountedCells s)[length (mountedCells s) - 1 := False]\<rparr>))"
  unfolding effectCleanup_def
  by (rule orReport_stop_returns(1)) (rule removeReturns_no_throw)

lemma scannerEffect_no_throw:
  "\<forall>k. \<not> sdkThrows e k \<Longrightarrow>
     scannerEffect e s =
       (let eid = length (mountedCells s);
            s0 = s\<lparr>mountedCells := mountedCells s @ [True]\<rparr>;
            s1 = snd (stopAllCameras e s0)
        in if \<not> (mountedCells s1 ! eid) then s1
           else if scannerType s1 = Cortex then
             (case startCortex e s1 of
                (Awaiting, s2) \<Rightarrow> s2\<lparr>pending := pending s2 @ [eid]\<rparr>
              | r \<Rightarrow> floating r)
           else s1)"
  unfolding scannerEffect_def Let_def
  by (rule orReport_stop_returns(1)) (rule removeReturns_no_throw)

lemma stopAllCameras_quiet:
  assumes n: "\<forall>k. \<not> sdkThrows e k" and t: "tracked s"
  shows "\<not> camera (snd (stopAllCameras e s))" "\<not> preview (snd (stopAllCameras e s))"
    "\<not> capturing (snd (stopAllCameras e s))" "\<not> decoding (snd (stopAllCameras e s))"
    "listeners (snd (stopAllCameras e s)) = []" "tracked (snd (stopAllCameras e s))"
proof -
  have r: "fst (stopAllCameras e s) = Inr ()"
    using removeReturns_no_throw[OF n, of s] by (simp add: stopAllCameras_fst)
  show "\<not> camera (snd (stopAllCameras e s))" "\<not> preview (snd (stopAllCameras e s))"
    "\<not> capturing (snd (stopAllCameras e s))" "\<not> decoding (snd (stopAllCameras e s))"
    using stopAllCameras_off[OF stopBlock_no_throw[OF n], of s] by simp_all
  show "listeners (snd (stopAllCameras e s)) = []"
    using stopAllCameras_tracked[OF t r] by simp
  show "tracked (snd (stopAllCameras e s))"
    using t by (rule stopAllCameras_tracked')
qed

lemma startCortex_activated:
  "licenseActivatedRef s \<Longrightarrow> startCortex e s = (Resolved, startCortex_rest s)"
  by (simp add: startCortex_def ensureLicenseActivated_flagged)

lemma startCortex_rest_frame:
  "licenseActivatedRef (startCortex_rest s) = licenseActivatedRef s"
  "session.more (startCortex_rest s) = session.more s"
  by (simp_all add: startCortex_rest_def addListener_def sdk_def split: option.splits)

lemmas startCortex_rest_component = component_of_more[OF startCortex_rest_frame(2)]
lemmas startCortex_rest_screen = screen_of_more[OF startCortex_rest_frame(2)]

lemma effectCleanup_settled:
  assumes n: "\<forall>k. \<not> sdkThrows e k" and s: "settled s"
  shows "settled (effectCleanup e s)" 
    and "\<not> camera (effectCleanup e s)" and "\<not> decoding (effectCleanup e s)"
    and "\<not> preview (effectCleanup e s)" and "\<not> capturing (effectCleanup e s)"
    and "listeners (effectCleanup e s) = []"
    and "scannerType (effectCleanup e s) = scannerType s" and "alive (effectCleanup e s) = alive s"
proof -
  let ?s0 = "s\<lparr>mountedCells := (mountedCells s)[length (mountedCells s) - 1 := False]\<rparr>"
  have t0: "tracked ?s0" using s by (simp add: settled_def tracked_def)
  note q = stopAllCameras_quiet[OF n t0]
  show "settled (effectCleanup e s)"
    using s q by (simp add: settled_def effectCleanup_no_throw[OF n] stopAllCameras_keeps stopAllCameras_screen)
  show "\<not> camera (effectCleanup e s)" "\<not> decoding (effectCleanup e s)"
    "\<not> preview (effectCleanup e s)" "\<not> capturing (effectCleanup e s)"
    "listeners (effectCleanup e s) = []"
    using q by (simp_all add: effectCleanup_no_throw[OF n])
  show "scannerType (effectCleanup e s) = scannerType s" "alive (effectCleanup e s) = alive s"
    by (simp_all add: effectCleanup_no_throw[OF n] stopAllCameras_component)
qed

lemma scannerEffect_settled:
  assumes n: "\<forall>k. \<not> sdkThrows e k" and s: "settled s" and a: "alive s"
  shows "settled (scannerEffect e s)"
proof -
  let ?s0 = "s\<lparr>mountedCells := mountedCells s @ [True]\<rparr>"
  let ?s1 = "snd (stopAllCameras e ?s0)"
  have t0: "tracked ?s0" using s by (simp add: settled_def tracked_def)
  note q = stopAllCameras_quiet[OF n t0]
  have f1: "licenseActivatedRef ?s1" "pending ?s1 = []" "alive ?s1" "scannerType ?s1 = scannerType s"
    "mountedCells ?s1 = mountedCells s @ [True]"
    using s a by (simp_all add: settled_def stopAllCameras_keeps stopAllCameras_screen
        stopAllCameras_component)
  have s1: "settled ?s1" using f1 q by (simp add: settled_def)
  have sc: "startCortex e ?s1 = (Resolved, startCortex_rest ?s1)"
    using f1(1) by (rule startCortex_activated)
  have s2: "settled (startCortex_rest ?s1)" if "scannerType s = Cortex"
    using f1 q(6) that
    by (simp add: settled_def startCortex_rest_frame startCortex_rest_component
        startCortex_rest_screen startCortex_rest_tracked)
  show ?thesis
    using s1 s2 f1 by (simp add: scannerEffect_no_throw[OF n] Let_def sc floating_def)
qed

lemma step_settled:
  assumes n: "\<forall>k. \<not> sdkThrows e k" and s: "settled s"
  shows "settled (step e x s)"
proof (cases x)
  case (SelectScanner t)
  show ?thesis
  proof (cases "\<not> alive s \<or> render e s = PermissionMessage")
    case True
    then show ?thesis using SelectScanner s by auto
  next
    case False
    then have a: "alive s" by simp
    let ?s1 = "setLastResult [] s"
    have s1: "settled ?s1" and a1: "alive ?s1" and ty: "scannerType ?s1 = scannerType s"
      using s a by (simp_all add: setLastResult_def settled_def tracked_def)
    let ?s2 = "?s1\<lparr>scannerType := t\<rparr>"
    let ?s3 = "effectCleanup e ?s2"
    have s3: "settled ?s3 \<and> alive ?s3"
    proof -
      let ?s0 = "?s2\<lparr>mountedCells := (mountedCells ?s2)[length (mountedCells ?s2) - 1 := False]\<rparr>"
      have t0: "tracked ?s0" using s1 by (simp add: settled_def tracked_def)
      note q = stopAllCameras_quiet[OF n t0]
      show ?thesis
        using s1 a1 q
        by (simp add: settled_def effectCleanup_no_throw[OF n] stopAllCameras_keeps stopAllCameras_screen
            stopAllCameras_component)
    qed
    have "settled (scannerEffect e ?s3)"
      using s3 by (intro scannerEffect_settled[OF n]) simp_all
    then show ?thesis
      using SelectScanner False s1 by (simp add: Let_def)
  qed
next
  case (ActivationSettled ok)
  then show ?thesis using s by (simp add: settled_def)
next
  case (DecodeResult b)
  then show ?thesis using s
    by (simp add: onDecodeResult_def setLastResult_def settled_def tracked_def
        split: option.splits list.splits)
next
  case (CodeScanned cs)
  then show ?thesis using s
    by (simp add: onCodeScanned_def setLastResult_def settled_def tracked_def split: list.splits)
next
  case Unmount
  note c = effectCleanup_settled[OF n s]
  have "settled ((effectCleanup e s)\<lparr>alive := False\<rparr>)"
    using c by (simp add: settled_def tracked_def)
  then show ?thesis using Unmount s by simp
qed (use s in \<open>auto simp add: settled_def tracked_def\<close>)

lemma run_settled:
  "\<forall>k. \<not> sdkThrows e k \<Longrightarrow> settled s \<Longrightarrow> settled (run e es s)"
  unfolding run_def by (induction es arbitrary: s) (simp_all add: step_settled)

text \<open>
  Mutual exclusion on the live-switch screen, where it holds. From a screen at rest,
  with an SDK that does not throw, after any events whatever: the cortex pipeline runs
  and a listener is attached only while cortex is selected, cortex and the vision
  camera are never active together, and a decode batch that arrives while vision is
  selected changes nothing.
\<close>

theorem cortex_only_while_selected:
  assumes "\<forall>k. \<not> sdkThrows e k" and "settled s"
  shows "(let s' = run e es s
          in (cortexActive s' \<longrightarrow> scannerType s' = Cortex)
           \<and> (listeners s' \<noteq> [] \<longrightarrow> scannerType s' = Cortex)
           \<and> \<not> (cortexActive s' \<and> visionActive e s')
           \<and> (scannerType s' = Vision \<longrightarrow> step e (DecodeResult b) s' = s'))"
proof -
  have "settled (run e es s)" using assms by (rule run_settled)
  then show ?thesis
    unfolding Let_def
    by (auto simp add: settled_def cortexActive_def visionActive_def render_def)
qed

theorem cortex_only_while_selected_witness:
  "(\<forall>k. \<not> sdkThrows exampleEnv k) \<and> settled cortexLive
   \<and> scannerType (run exampleEnv [SelectScanner Vision] cortexLive) = Vision
   \<and> \<not> cortexActive (run exampleEnv [SelectScanner Vision] cortexLive)
   \<and> step exampleEnv (DecodeResult (Some [abc123])) (run exampleEnv [SelectScanner Vision] cortexLive) =
       run exampleEnv [SelectScanner Vision] cortexLive"
proof -
  have n: "\<forall>k. \<not> sdkThrows exampleEnv k" by (simp add: exampleEnv_def)
  have s: "settled cortexLive" by code_simp
  have v: "scannerType (run exampleEnv [SelectScanner Vision] cortexLive) = Vision" by code_simp
  from cortex_only_while_selected[OF n s, of "[SelectScanner Vision]" "Some [abc123]"] n s v
  show ?thesis unfolding Let_def by auto
qed

subsection \<open>A start that resumes after its effect was cleaned up\<close>

text \<open>
  C1 fails on the live-switch screen. The screen mounts on cortex with a license key;
  the user presses VISION while \<^verbatim>\<open>activateLicense\<close> is pending; the activation succeeds;
  cortex decodes ''STALE''. The waiting \<^verbatim>\<open>startCortex\<close> went on after the switch:
  vision is selected and its camera rendered, the cortex camera and decoder run with a
  listener attached, and the cortex result is shown.
\<close>

theorem stale_start_runs_cortex_beside_vision:
  "(let s = run exampleEnv
       [SelectScanner Vision, ActivationSettled True,
        DecodeResult (Some [\<lparr>status = Success, barcodeData = ''STALE''\<rparr>])]
       (mount exampleEnv)
    in scannerType s = Vision \<and> visionActive exampleEnv s \<and> cortexActive s
     \<and> listeners s = [0] \<and> lastResult s = ''STALE'')"
  by code_simp

text \<open>
  C5 fails on the live-switch screen. \<^verbatim>\<open>if (!mounted) return\<close> is read before the
  \<^verbatim>\<open>await\<close>, when \<^verbatim>\<open>mounted\<close> is still true, and never after it. After a switch to
  vision, and likewise after unmounting, the \<^verbatim>\<open>mounted\<close> of the waiting start is
  false; when the activation settles, the start sets the flag, attaches the listener
  and starts camera, preview, capture and decoder all the same.
\<close>

theorem stale_start_ignores_mounted_guard:
  "(let s = run exampleEnv [SelectScanner Vision] (mount exampleEnv);
        s' = step exampleEnv (ActivationSettled True) s
    in pending s = [0] \<and> mountedCells s ! 0 = False
     \<and> \<not> cortexActive s \<and> subscriptionRef s = None \<and> \<not> licenseActivatedRef s
     \<and> cortexActive s' \<and> subscriptionRef s' = Some 0 \<and> licenseActivatedRef s'
     \<and> calls s' = calls s @ [AddListener 0, StartCamera, StartPreview, SetVideoCapturing True, SetDecoding True])
 \<and> (let s = run exampleEnv [Unmount] (mount exampleEnv);
        s' = step exampleEnv (ActivationSettled True) s
    in pending s = [0] \<and> mountedCells s ! 0 = False \<and> \<not> alive s
     \<and> cortexActive s' \<and> subscriptionRef s' = Some 0 \<and> licenseActivatedRef s')"
  by code_simp

lemma step_unmounted: "\<not> alive s \<Longrightarrow> pending s = [] \<Longrightarrow> step e x s = s"
  by (cases x)
    (simp_all add: onDecodeResult_def setLastResult_def split: option.splits list.splits)

lemma run_unmounted: "\<not> alive s \<Longrightarrow> pending s = [] \<Longrightarrow> run e es s = s"
  unfolding run_def by (induction es) (simp_all add: step_unmounted)

text \<open>
  C8 fails by the same start. Live-switch screen: the screen mounts on cortex with a
  license key and is unmounted while \<^verbatim>\<open>activateLicense\<close> is pending; the cleanup leaves
  no listener; the activation succeeds and the waiting \<^verbatim>\<open>startCortex\<close> attaches one,
  on a screen that is gone: no event whatever removes it. Explicit-lifecycle screen:
  the same after unmounting, and after the close button, which leaves a listener
  attached and the pipeline running on an idle screen.
\<close>

theorem stale_start_leaves_subscription_after_teardown:
  "(let s0 = run exampleEnv [Unmount] (mount exampleEnv);
        s = run exampleEnv [Unmount, ActivationSettled True] (mount exampleEnv)
    in \<not> alive s0 \<and> subscriptionRef s0 = None \<and> listeners s0 = []
     \<and> \<not> alive s \<and> subscriptionRef s = Some 0 \<and> listeners s = [0] \<and> cortexActive s
     \<and> (\<forall>es. run exampleEnv es s = s))
 \<and> (let s = run_v1 exampleEnv [PressStart, Unmount, ActivationSettled True] (init_v1 exampleEnv)
    in \<not> alive s \<and> subscriptionRef s = Some 0 \<and> listeners s = [0] \<and> cortexActive s)
 \<and> (let s = run_v1 exampleEnv [PressStart, PressClose, ActivationSettled True] (init_v1 exampleEnv)
    in state s = Idle \<and> subscriptionRef s = Some 0 \<and> listeners s = [0] \<and> cortexActive s)"
proof -
  let ?s = "run exampleEnv [Unmount, ActivationSettled True] (mount exampleEnv)"
  have a: "(let s0 = run exampleEnv [Unmount] (mount exampleEnv)
      in \<not> alive s0 \<and> subscriptionRef s0 = None \<and> listeners s0 = [])
    \<and> \<not> alive ?s \<and> subscriptionRef ?s = Some 0 \<and> listeners ?s = [0] \<and> cortexActive ?s
    \<and> pending ?s = []"
    by code_simp
  have b: "\<forall>es. run exampleEnv es ?s = ?s"
    using a by (simp add: run_unmounted)
  have c: "(let s = run_v1 exampleEnv [PressStart, Unmount, ActivationSettled True] (init_v1 exampleEnv)
      in \<not> alive s \<and> subscriptionRef s = Some 0 \<and> listeners s = [0] \<and> cortexActive s)
    \<and> (let s = run_v1 exampleEnv [PressStart, PressClose, ActivationSettled True] (init_v1 exampleEnv)
      in state s = Idle \<and> subscriptionRef s = Some 0 \<and> listeners s = [0] \<and> cortexActive s)"
    by code_simp
  show ?thesis
    using a b c unfolding Let_def by blast
qed

end
